theory Spec2Isabelle
  imports Complex_Main "HOL-Library.AList"
begin

section \<open>Data model of \<^verbatim>\<open>tools/download_manager.py\<close>\<close>

text \<open>
  The field \<^verbatim>\<open>status\<close> of a task is a Python string; the dataclass lists its five
  values (\<^verbatim>\<open>pending, downloading, completed, failed, paused\<close>) and the code only ever
  assigns these five literals.
\<close>

datatype task_status = Pending | Downloading | Completed | Failed | Paused

fun status_str :: "task_status \<Rightarrow> string" where
  "status_str Pending = ''pending''"
| "status_str Downloading = ''downloading''"
| "status_str Completed = ''completed''"
| "status_str Failed = ''failed''"
| "status_str Paused = ''paused''"

text \<open>The dataclass \<^verbatim>\<open>DownloadTask\<close>; Python integers are unbounded.\<close>

record DownloadTask =
  url :: string
  filename :: string
  headers :: "(string \<times> string) list"
  episode_number :: int
  episode_title :: string
  file_size :: int
  downloaded :: int
  status :: task_status
  retry_count :: int
  max_retries :: int

section \<open>\<^verbatim>\<open>SmartDownloadManager.get_download_summary\<close>\<close>

text \<open>
  The summary is a dictionary from strings to integers. It starts with the five keys
  \<^verbatim>\<open>total, completed, failed, pending, downloading\<close>; the loop increments the entry
  named by a task's status when that string is a key of the dictionary.
\<close>

definition summary_init :: "DownloadTask list \<Rightarrow> (string \<rightharpoonup> int)" where
  "summary_init tasks =
     [''total'' \<mapsto> int (length tasks), ''completed'' \<mapsto> 0, ''failed'' \<mapsto> 0,
      ''pending'' \<mapsto> 0, ''downloading'' \<mapsto> 0]"

fun summary_loop :: "DownloadTask list \<Rightarrow> (string \<rightharpoonup> int) \<Rightarrow> (string \<rightharpoonup> int)" where
  "summary_loop [] summary = summary"
| "summary_loop (task # rest) summary =
     summary_loop rest
       (case summary (status_str (status task)) of
          Some n \<Rightarrow> summary(status_str (status task) \<mapsto> n + 1)
        | None \<Rightarrow> summary)"

definition get_download_summary :: "DownloadTask list \<Rightarrow> (string \<rightharpoonup> int)" where
  "get_download_summary tasks = summary_loop tasks (summary_init tasks)"

text \<open>The number of tasks of a list that are in a given status.\<close>

definition count_status :: "task_status \<Rightarrow> DownloadTask list \<Rightarrow> int" where
  "count_status s tasks = int (length (filter (\<lambda>t. status t = s) tasks))"

section \<open>Disk, network and faults\<close>

text \<open>
  File contents and paths are byte strings. The disk maps a path to the content of the
  regular file there; \<^verbatim>\<open>os.path.exists\<close> is definedness and
  \<^verbatim>\<open>os.path.getsize\<close> the length of the content.
\<close>

type_synonym bytes = string
type_synonym path = string
type_synonym disk = "path \<rightharpoonup> bytes"

text \<open>
  The exceptions that reach the handlers of \<^verbatim>\<open>download_with_progress\<close>.
  \<^verbatim>\<open>HTTPError n\<close> is the \<^verbatim>\<open>Exception("HTTP n")\<close> the function raises itself; the others
  come from the HTTP client, the file system and the event loop.
\<close>

datatype error =
    ConnectionError
  | TimeoutError
  | HTTPError int
  | InvalidURL
  | UnsupportedProtocol
  | PayloadError
  | StorageError
  | CancelledError

text \<open>
  A response as the function reads it: the status, the \<^verbatim>\<open>Content-Length\<close> header when
  present, the chunks \<^verbatim>\<open>iter_chunked\<close> yields, and how the iteration ends (\<open>None\<close>: the
  body is exhausted; \<open>Some e\<close>: the read or the write of the next chunk raises \<open>e\<close>).
\<close>

record response =
  resp_status :: int
  content_length :: "int option"
  body :: "bytes list"
  body_end :: "error option"

text \<open>
  What the world outside the function does during one attempt: \<^verbatim>\<open>session.get\<close> as a
  function of the URL and the request headers, and whether \<^verbatim>\<open>os.makedirs\<close> and
  \<^verbatim>\<open>aiofiles.open\<close> succeed.
\<close>

datatype write_fault = NoFault | OpenFails | FailsAfter nat

record attempt_env =
  session_get :: "string \<Rightarrow> (string \<times> string) list \<Rightarrow> error + response"
  makedirs_ok :: bool
  open_ok :: bool
  save_fault :: write_fault

datatype open_mode = Append | Write

text \<open>Decimal rendering of an integer, as an f-string writes it.\<close>

definition digit_char :: "nat \<Rightarrow> char" where
  "digit_char d = ''0123456789'' ! d"

function str_nat :: "nat \<Rightarrow> string" where
  "str_nat n = (if n < 10 then [digit_char n] else str_nat (n div 10) @ [digit_char (n mod 10)])"
  by pat_completeness auto
termination
  by (relation "measure id") auto

definition str_int :: "int \<Rightarrow> string" where
  "str_int i = (if i < 0 then CHR ''-'' # str_nat (nat (- i)) else str_nat (nat i))"

text \<open>
  \<^verbatim>\<open>os.path.dirname\<close> (POSIX): the path up to its last slash, without trailing slashes
  unless it consists of slashes only.
\<close>

definition dirname :: "path \<Rightarrow> path" where
  "dirname p =
     (let head = rev (dropWhile (\<lambda>c. c \<noteq> CHR ''/'') (rev p))
      in if head \<noteq> [] \<and> \<not> list_all (\<lambda>c. c = CHR ''/'') head
         then rev (dropWhile (\<lambda>c. c = CHR ''/'') (rev head))
         else head)"

section \<open>\<^verbatim>\<open>SmartDownloadManager\<close>\<close>

record manager =
  max_concurrent :: int
  chunk_size :: int
  download_tasks :: "DownloadTask list"
  resume_data_file :: path

subsection \<open>\<^verbatim>\<open>save_resume_data\<close>\<close>

text \<open>
  The manifest holds the tasks whose status is downloading or paused. \<^verbatim>\<open>json.dump\<close> is
  Python's library: it is a parameter \<open>json_dump\<close>, the text written for a list of
  tasks. The file is opened with mode \<^verbatim>\<open>'w'\<close>, which truncates it, and then written
  in place; an exception is caught and printed. \<open>OpenFails\<close>: \<^verbatim>\<open>open\<close> raises;
  \<open>FailsAfter k\<close>: the write raises when \<open>k\<close> bytes have reached the file.
\<close>

definition resume_tasks :: "manager \<Rightarrow> DownloadTask list" where
  "resume_tasks m = filter (\<lambda>task. status task = Downloading \<or> status task = Paused) (download_tasks m)"

definition save_resume_data ::
  "(DownloadTask list \<Rightarrow> bytes) \<Rightarrow> write_fault \<Rightarrow> manager \<Rightarrow> disk \<Rightarrow> disk" where
  "save_resume_data json_dump fault m d =
     (case fault of
        OpenFails \<Rightarrow> d
      | FailsAfter k \<Rightarrow> d(resume_data_file m \<mapsto> take k (json_dump (resume_tasks m)))
      | NoFault \<Rightarrow> d(resume_data_file m \<mapsto> json_dump (resume_tasks m)))"

subsection \<open>\<^verbatim>\<open>load_resume_data\<close>\<close>

text \<open>
  \<^verbatim>\<open>json.load\<close> is a parameter \<open>json_load\<close>: \<open>None\<close> when reading or decoding the file
  raises, otherwise the decoded value, seen through the operations the function applies
  to it. \<open>TasksList\<close> is a dictionary whose \<^verbatim>\<open>"tasks"\<close> (default \<^verbatim>\<open>[]\<close>) can be iterated;
  \<open>NotTasks\<close> is any other value (\<^verbatim>\<open>.get\<close> or the iteration raises). An element is
  \<open>TaskDict t\<close> when the constructor \<^verbatim>\<open>DownloadTask\<close>, called with its entries as keyword
  arguments, accepts it and gives \<open>t\<close>, \<open>BadKeys p\<close>
  when it has the filename \<open>p\<close> but keys the constructor rejects, and \<open>NoFilename\<close> when
  \<^verbatim>\<open>task_data["filename"]\<close> raises.
\<close>

datatype task_data = TaskDict DownloadTask | BadKeys path | NoFilename

datatype resume_json = TasksList "task_data list" | NotTasks

text \<open>
  The loop over the recorded tasks: the task list so far, \<^verbatim>\<open>resumed_count\<close>, and whether
  an exception left the loop. Tasks appended before the exception stay appended.
\<close>

fun load_loop ::
  "disk \<Rightarrow> task_data list \<Rightarrow> DownloadTask list \<Rightarrow> nat \<Rightarrow> DownloadTask list \<times> nat \<times> bool" where
  "load_loop d [] tasks resumed_count = (tasks, resumed_count, False)"
| "load_loop d (NoFilename # rest) tasks resumed_count = (tasks, resumed_count, True)"
| "load_loop d (BadKeys p # rest) tasks resumed_count =
     (case d p of
        None \<Rightarrow> load_loop d rest tasks resumed_count
      | Some content \<Rightarrow>
          if length content > 0 then (tasks, resumed_count, True)
          else load_loop d rest tasks resumed_count)"
| "load_loop d (TaskDict task # rest) tasks resumed_count =
     (case d (filename task) of
        None \<Rightarrow> load_loop d rest tasks resumed_count
      | Some content \<Rightarrow>
          if length content > 0
          then load_loop d rest
                 (tasks @ [task\<lparr>downloaded := int (length content), status := Paused\<rparr>])
                 (resumed_count + 1)
          else load_loop d rest tasks resumed_count)"

definition load_resume_data ::
  "(bytes \<Rightarrow> resume_json option) \<Rightarrow> manager \<Rightarrow> disk \<Rightarrow> manager \<times> bool" where
  "load_resume_data json_load m d =
     (case d (resume_data_file m) of
        None \<Rightarrow> (m, False)
      | Some text \<Rightarrow>
          (case json_load text of
             None \<Rightarrow> (m, False)
           | Some NotTasks \<Rightarrow> (m, False)
           | Some (TasksList entries) \<Rightarrow>
               (case load_loop d entries (download_tasks m) 0 of
                  (tasks, resumed_count, raised) \<Rightarrow>
                    (m\<lparr>download_tasks := tasks\<rparr>, \<not> raised \<and> resumed_count > 0))))"

subsection \<open>\<^verbatim>\<open>download_with_progress\<close>\<close>

text \<open>
  Lines 106 to 116, up to the first \<^verbatim>\<open>await\<close>: the request headers, the mode the
  destination will be opened with, and the task marked as downloading.
\<close>

definition prepare :: "disk \<Rightarrow> DownloadTask \<Rightarrow> DownloadTask \<times> (string \<times> string) list \<times> open_mode" where
  "prepare d task =
     (if downloaded task > 0 \<and> d (filename task) \<noteq> None
      then (task\<lparr>status := Downloading\<rparr>,
            AList.update ''Range'' (''bytes='' @ str_int (downloaded task) @ ''-'') (headers task),
            Append)
      else (task\<lparr>downloaded := 0, status := Downloading\<rparr>, headers task, Write))"

text \<open>Lines 123 to 130: the total size, when it is not known yet.\<close>

definition set_file_size :: "response \<Rightarrow> DownloadTask \<Rightarrow> DownloadTask" where
  "set_file_size r task =
     (if file_size task = 0 then
        (case content_length r of
           None \<Rightarrow> task
         | Some n \<Rightarrow>
             if resp_status r = 206 then task\<lparr>file_size := n + downloaded task\<rparr>
             else task\<lparr>file_size := n\<rparr>)
      else task)"

text \<open>
  Lines 137 to 143: each chunk is written to the file, counted, and the task is passed
  to the progress callbacks. The result is the file's content, the task and the tasks
  as the callbacks saw them, in order.
\<close>

fun write_chunks ::
  "bytes list \<Rightarrow> bytes \<Rightarrow> DownloadTask \<Rightarrow> DownloadTask list \<Rightarrow> bytes \<times> DownloadTask \<times> DownloadTask list" where
  "write_chunks [] content task reported = (content, task, reported)"
| "write_chunks (chunk # rest) content task reported =
     (let task' = task\<lparr>downloaded := downloaded task + int (length chunk)\<rparr>
      in write_chunks rest (content @ chunk) task' (reported @ [task']))"

record attempt_result =
  disk_after :: disk
  task_after :: DownloadTask
  reported :: "DownloadTask list"
  raised :: "error option"

text \<open>Lines 118 to 145: the rest of the \<^verbatim>\<open>try\<close> block.\<close>

definition transfer ::
  "attempt_env \<Rightarrow> disk \<Rightarrow> DownloadTask \<times> (string \<times> string) list \<times> open_mode \<Rightarrow> attempt_result" where
  "transfer env d plan =
     (case plan of (task, request_headers, mode) \<Rightarrow>
        (case session_get env (url task) request_headers of
           Inl e \<Rightarrow> \<lparr>disk_after = d, task_after = task, reported = [], raised = Some e\<rparr>
         | Inr r \<Rightarrow>
             if resp_status r \<noteq> 200 \<and> resp_status r \<noteq> 206
             then \<lparr>disk_after = d, task_after = task, reported = [],
                   raised = Some (HTTPError (resp_status r))\<rparr>
             else
               let task1 = set_file_size r task in
               if dirname (filename task1) = [] \<or> \<not> makedirs_ok env \<or> \<not> open_ok env
               then \<lparr>disk_after = d, task_after = task1, reported = [],
                     raised = Some StorageError\<rparr>
               else
                 let start = (case mode of
                                Write \<Rightarrow> []
                              | Append \<Rightarrow> (case d (filename task1) of None \<Rightarrow> [] | Some old \<Rightarrow> old))
                 in (case write_chunks (body r) start task1 [] of
                       (content, task2, seen) \<Rightarrow>
                         (case body_end r of
                            Some e \<Rightarrow>
                              \<lparr>disk_after = d(filename task1 \<mapsto> content), task_after = task2,
                               reported = seen, raised = Some e\<rparr>
                          | None \<Rightarrow>
                              \<lparr>disk_after = d(filename task1 \<mapsto> content),
                               task_after = task2\<lparr>status := Completed\<rparr>,
                               reported = seen, raised = None\<rparr>))))"

definition try_block :: "attempt_env \<Rightarrow> disk \<Rightarrow> DownloadTask \<Rightarrow> attempt_result" where
  "try_block env d task = transfer env d (prepare d task)"

text \<open>
  Lines 152 to 159, the handler of every exception but the cancellation. It prints the
  exception and otherwise does not look at it.
\<close>

definition except_Exception :: "error \<Rightarrow> DownloadTask \<Rightarrow> DownloadTask" where
  "except_Exception e task =
     (let task1 = task\<lparr>status := Failed, retry_count := retry_count task + 1\<rparr>
      in if retry_count task1 < max_retries task1 then task1\<lparr>status := Pending\<rparr> else task1)"

text \<open>
  The handlers applied to the outcome of the \<^verbatim>\<open>try\<close> block, for the task at index \<open>i\<close> of
  the manager's list. The last component tells whether the cancellation is raised again.
\<close>

definition handlers ::
  "(DownloadTask list \<Rightarrow> bytes) \<Rightarrow> attempt_env \<Rightarrow> nat \<Rightarrow> manager \<Rightarrow> attempt_result \<Rightarrow>
     manager \<times> disk \<times> bool" where
  "handlers json_dump env i m res =
     (case raised res of
        None \<Rightarrow>
          (m\<lparr>download_tasks := (download_tasks m)[i := task_after res]\<rparr>, disk_after res, False)
      | Some e \<Rightarrow>
          if e = CancelledError then
            (let m' = m\<lparr>download_tasks := (download_tasks m)[i := (task_after res)\<lparr>status := Paused\<rparr>]\<rparr>
             in (m', save_resume_data json_dump (save_fault env) m' (disk_after res), True))
          else
            (m\<lparr>download_tasks := (download_tasks m)[i := except_Exception e (task_after res)]\<rparr>,
             disk_after res, False))"

definition download_with_progress ::
  "(DownloadTask list \<Rightarrow> bytes) \<Rightarrow> attempt_env \<Rightarrow> nat \<Rightarrow> manager \<Rightarrow> disk \<Rightarrow> manager \<times> disk \<times> bool" where
  "download_with_progress json_dump env i m d =
     handlers json_dump env i m (try_block env d (download_tasks m ! i))"

subsection \<open>\<^verbatim>\<open>download_all\<close>\<close>

text \<open>
  \<^verbatim>\<open>download_all\<close> runs one coroutine \<^verbatim>\<open>download_with_semaphore(task)\<close> per selected task
  on the event loop, all sharing one \<^verbatim>\<open>asyncio.Semaphore(max_concurrent)\<close>. The event
  loop runs one coroutine at a time and switches only at an \<^verbatim>\<open>await\<close>, so a run is a
  sequence of steps of a state: the manager, the disk, the semaphore's value and, for
  the task at each index of the manager's list, where its coroutine stands. \<open>Idle\<close>: the
  task was not selected in this round; \<open>Waiting\<close>: its coroutine waits for the semaphore;
  \<open>Running\<close>: it holds the semaphore and is inside \<^verbatim>\<open>download_with_progress\<close>, with the
  request headers and the mode it computed; \<open>Done\<close>: it has returned or was cancelled.
\<close>

datatype phase = Idle | Waiting | Running "(string \<times> string) list" open_mode | Done

record run_state =
  mgr :: manager
  files :: disk
  workers :: "phase list"
  permits :: nat

fun is_running :: "phase \<Rightarrow> bool" where
  "is_running (Running request_headers mode) = True"
| "is_running other = False"

text \<open>Line 182, the tasks of the first round, and lines 202 to 203, those of a later round.\<close>

definition first_round :: "DownloadTask \<Rightarrow> bool" where
  "first_round task = (status task = Pending \<or> status task = Paused)"

definition retry_round :: "DownloadTask \<Rightarrow> bool" where
  "retry_round task = (status task = Pending \<and> retry_count task < max_retries task)"

definition spawn :: "(DownloadTask \<Rightarrow> bool) \<Rightarrow> DownloadTask list \<Rightarrow> phase list" where
  "spawn selected tasks = map (\<lambda>task. if selected task then Waiting else Idle) tasks"

text \<open>
  The state when the first round starts. There is no run when the list is empty (the
  function returns) or when \<^verbatim>\<open>asyncio.Semaphore\<close> rejects a negative value.
\<close>

definition download_all_start :: "manager \<Rightarrow> disk \<Rightarrow> run_state option" where
  "download_all_start m d =
     (if download_tasks m = [] \<or> max_concurrent m < 0 then None
      else Some \<lparr>mgr = m, files = d, workers = spawn first_round (download_tasks m),
                 permits = nat (max_concurrent m)\<rparr>)"

text \<open>
  The steps. \<open>acquire\<close>: a waiting coroutine takes a permit and runs
  \<^verbatim>\<open>download_with_progress\<close> up to its first \<^verbatim>\<open>await\<close>. \<open>finish\<close>: a running coroutine
  runs to its end, whatever the world answers (a cancellation included), and gives the
  permit back. \<open>cancel_waiting\<close>: a coroutine is cancelled while it waits for the
  semaphore. \<open>next_round\<close>: \<^verbatim>\<open>gather\<close> has returned and the tasks to retry are selected.
  What a coroutine does between two chunks changes the disk and the counter
  \<^verbatim>\<open>downloaded\<close> only; \<open>finish\<close> takes these steps at once.
\<close>

inductive step :: "(DownloadTask list \<Rightarrow> bytes) \<Rightarrow> run_state \<Rightarrow> run_state \<Rightarrow> bool"
  for json_dump :: "DownloadTask list \<Rightarrow> bytes" where
  acquire:
    "i < length (workers s) \<Longrightarrow> i < length (download_tasks (mgr s)) \<Longrightarrow>
     workers s ! i = Waiting \<Longrightarrow> permits s > 0 \<Longrightarrow>
     prepare (files s) (download_tasks (mgr s) ! i) = (task', request_headers, mode) \<Longrightarrow>
     step json_dump s
       (s\<lparr>mgr := (mgr s)\<lparr>download_tasks := (download_tasks (mgr s))[i := task']\<rparr>,
          workers := (workers s)[i := Running request_headers mode],
          permits := permits s - 1\<rparr>)"
| finish:
    "i < length (workers s) \<Longrightarrow> i < length (download_tasks (mgr s)) \<Longrightarrow>
     workers s ! i = Running request_headers mode \<Longrightarrow>
     handlers json_dump env i (mgr s)
       (transfer env (files s) (download_tasks (mgr s) ! i, request_headers, mode)) =
       (m', d', reraised) \<Longrightarrow>
     step json_dump s
       (s\<lparr>mgr := m', files := d', workers := (workers s)[i := Done],
          permits := permits s + 1\<rparr>)"
| cancel_waiting:
    "i < length (workers s) \<Longrightarrow> workers s ! i = Waiting \<Longrightarrow>
     step json_dump s (s\<lparr>workers := (workers s)[i := Done]\<rparr>)"
| next_round:
    "list_all (\<lambda>w. w = Idle \<or> w = Done) (workers s) \<Longrightarrow> Done \<in> set (workers s) \<Longrightarrow>
     step json_dump s (s\<lparr>workers := spawn retry_round (download_tasks (mgr s))\<rparr>)"

text \<open>The budget a task is within: the retry count is below the budget until the task has failed for good.\<close>

definition within_budget :: "DownloadTask \<Rightarrow> bool" where
  "within_budget task =
     (retry_count task \<le> max_retries task \<and>
      (status task \<noteq> Failed \<longrightarrow> retry_count task < max_retries task))"

text \<open>
  The same steps, named: an event says which coroutine moves and, for \<open>Finish\<close>, what the
  world answers during the attempt. \<open>apply_event\<close> is the state after the event, when the
  event can happen in the state; \<open>exec\<close> runs a list of events.
\<close>

datatype event = Acquire nat | Finish nat attempt_env | CancelWaiting nat | NextRound

definition apply_event :: "(DownloadTask list \<Rightarrow> bytes) \<Rightarrow> run_state \<Rightarrow> event \<Rightarrow> run_state option" where
  "apply_event json_dump s ev =
     (case ev of
        Acquire i \<Rightarrow>
          if i < length (workers s) \<and> i < length (download_tasks (mgr s)) \<and>
             workers s ! i = Waiting \<and> permits s > 0
          then (case prepare (files s) (download_tasks (mgr s) ! i) of
                  (task', request_headers, mode) \<Rightarrow>
                    Some (s\<lparr>mgr := (mgr s)\<lparr>download_tasks := (download_tasks (mgr s))[i := task']\<rparr>,
                            workers := (workers s)[i := Running request_headers mode],
                            permits := permits s - 1\<rparr>))
          else None
      | Finish i env \<Rightarrow>
          if i < length (workers s) \<and> i < length (download_tasks (mgr s))
          then (case workers s ! i of
                  Running request_headers mode \<Rightarrow>
                    (case handlers json_dump env i (mgr s)
                            (transfer env (files s) (download_tasks (mgr s) ! i, request_headers, mode)) of
                       (m', d', reraised) \<Rightarrow>
                         Some (s\<lparr>mgr := m', files := d', workers := (workers s)[i := Done],
                                 permits := permits s + 1\<rparr>))
                | other \<Rightarrow> None)
          else None
      | CancelWaiting i \<Rightarrow>
          if i < length (workers s) \<and> workers s ! i = Waiting
          then Some (s\<lparr>workers := (workers s)[i := Done]\<rparr>)
          else None
      | NextRound \<Rightarrow>
          if list_all (\<lambda>w. w = Idle \<or> w = Done) (workers s) \<and> Done \<in> set (workers s)
          then Some (s\<lparr>workers := spawn retry_round (download_tasks (mgr s))\<rparr>)
          else None)"

fun exec :: "(DownloadTask list \<Rightarrow> bytes) \<Rightarrow> run_state \<Rightarrow> event list \<Rightarrow> run_state option" where
  "exec json_dump s [] = Some s"
| "exec json_dump s (ev # events) =
     (case apply_event json_dump s ev of
        None \<Rightarrow> None
      | Some s' \<Rightarrow> exec json_dump s' events)"

text \<open>
  An event is a failed attempt of the task at index \<open>i\<close> when it ends the attempt of
  that task with an exception other than the cancellation, the case of lines 152 to 159.
  \<open>failed_attempts\<close> counts them along a run.
\<close>

definition attempt_fails :: "run_state \<Rightarrow> event \<Rightarrow> nat \<Rightarrow> bool" where
  "attempt_fails s ev i =
     (case ev of
        Finish j env \<Rightarrow>
          j = i \<and>
          (case workers s ! i of
             Running request_headers mode \<Rightarrow>
               (case raised (transfer env (files s)
                       (download_tasks (mgr s) ! i, request_headers, mode)) of
                  None \<Rightarrow> False
                | Some e \<Rightarrow> e \<noteq> CancelledError)
           | other \<Rightarrow> False)
      | other \<Rightarrow> False)"

fun failed_attempts ::
  "(DownloadTask list \<Rightarrow> bytes) \<Rightarrow> run_state \<Rightarrow> event list \<Rightarrow> nat \<Rightarrow> nat" where
  "failed_attempts json_dump s [] i = 0"
| "failed_attempts json_dump s (ev # events) i =
     (case apply_event json_dump s ev of
        None \<Rightarrow> 0
      | Some s' \<Rightarrow>
          (if attempt_fails s ev i then 1 else 0) + failed_attempts json_dump s' events i)"

text \<open>
  Two invariants of a run. The first, for the tasks the run starts with and the limit
  \<open>c\<close>: the free permits and the running coroutines add up to \<open>c\<close>, and a task is
  downloading only while its coroutine runs, or when it was downloading from the start.
  The second: every task is within its budget, a waiting coroutine's task is
  pending or paused, and a running coroutine's task is downloading.
\<close>

definition limit_inv :: "DownloadTask list \<Rightarrow> nat \<Rightarrow> run_state \<Rightarrow> bool" where
  "limit_inv initial c s =
     (permits s + length (filter is_running (workers s)) = c \<and>
      length (download_tasks (mgr s)) = length initial \<and>
      length (workers s) = length initial \<and>
      (\<forall>i < length initial.
         status (download_tasks (mgr s) ! i) = Downloading \<longrightarrow>
           is_running (workers s ! i) \<or> status (initial ! i) = Downloading))"

definition budget_inv :: "run_state \<Rightarrow> bool" where
  "budget_inv s =
     list_all2 (\<lambda>task w. within_budget task \<and> (w = Waiting \<longrightarrow> first_round task) \<and>
                  (is_running w \<longrightarrow> status task = Downloading))
       (download_tasks (mgr s)) (workers s)"

section \<open>\<^verbatim>\<open>AdvancedProgressTracker\<close>\<close>







section \<open>The manifest as text\<close>

text \<open>
  What \<^verbatim>\<open>json.dump(resume_data, f, indent=2)\<close> writes for
  \<^verbatim>\<open>{"tasks": [asdict(task), ...]}\<close>, for strings over the code points below 256: the
  keys in the order of the dataclass's fields, two spaces per level, \<^verbatim>\<open>{}\<close> and \<^verbatim>\<open>[]\<close> for
  an empty dictionary and an empty list, and every character outside the printable ASCII
  range escaped. It instantiates the parameter \<open>json_dump\<close> in the examples.
\<close>

definition hex_char :: "nat \<Rightarrow> char" where
  "hex_char d = ''0123456789abcdef'' ! d"

definition json_escape :: "char \<Rightarrow> string" where
  "json_escape c =
     (let n = of_char c :: nat in
      if n = 0x22 then [CHR 0x5C, CHR 0x22]
      else if n = 0x5C then [CHR 0x5C, CHR 0x5C]
      else if n = 0x08 then [CHR 0x5C, CHR ''b'']
      else if n = 0x0C then [CHR 0x5C, CHR ''f'']
      else if n = 0x0A then [CHR 0x5C, CHR ''n'']
      else if n = 0x0D then [CHR 0x5C, CHR ''r'']
      else if n = 0x09 then [CHR 0x5C, CHR ''t'']
      else if 0x20 \<le> n \<and> n \<le> 0x7E then [c]
      else [CHR 0x5C, CHR ''u'', CHR ''0'', CHR ''0'', hex_char (n div 16), hex_char (n mod 16)])"

definition json_string :: "string \<Rightarrow> string" where
  "json_string s = CHR 0x22 # concat (map json_escape s) @ [CHR 0x22]"

definition newline_indent :: "nat \<Rightarrow> string" where
  "newline_indent n = CHR 0x0A # replicate n (CHR '' '')"

fun join :: "string \<Rightarrow> string list \<Rightarrow> string" where
  "join sep [] = []"
| "join sep [x] = x"
| "join sep (x # y # ys) = x @ sep @ join sep (y # ys)"

definition json_object :: "nat \<Rightarrow> (string \<times> string) list \<Rightarrow> string" where
  "json_object level items =
     (if items = [] then ''{}''
      else ''{'' @ newline_indent (level + 2)
           @ join ('','' @ newline_indent (level + 2))
               (map (\<lambda>(k, v). json_string k @ '': '' @ v) items)
           @ newline_indent level @ ''}'')"

definition json_array :: "nat \<Rightarrow> string list \<Rightarrow> string" where
  "json_array level items =
     (if items = [] then ''[]''
      else ''['' @ newline_indent (level + 2)
           @ join ('','' @ newline_indent (level + 2)) items
           @ newline_indent level @ '']'')"

definition task_json :: "nat \<Rightarrow> DownloadTask \<Rightarrow> string" where
  "task_json level task =
     json_object level
       [(''url'', json_string (url task)),
        (''filename'', json_string (filename task)),
        (''headers'', json_object (level + 2) (map (\<lambda>(k, v). (k, json_string v)) (headers task))),
        (''episode_number'', str_int (episode_number task)),
        (''episode_title'', json_string (episode_title task)),
        (''file_size'', str_int (file_size task)),
        (''downloaded'', str_int (downloaded task)),
        (''status'', json_string (status_str (status task))),
        (''retry_count'', str_int (retry_count task)),
        (''max_retries'', str_int (max_retries task))]"

definition json_dump_indent2 :: "DownloadTask list \<Rightarrow> bytes" where
  "json_dump_indent2 tasks = json_object 0 [(''tasks'', json_array 2 (map (task_json 4) tasks))]"

text \<open>
  An instance of the parameter \<open>json_load\<close> for the examples: it decodes the manifest
  text of the given tasks to these tasks and rejects every other text.
\<close>

definition json_load_only :: "DownloadTask list \<Rightarrow> bytes \<Rightarrow> resume_json option" where
  "json_load_only recorded text =
     (if text = json_dump_indent2 recorded then Some (TasksList (map TaskDict recorded)) else None)"

section \<open>Example inputs\<close>

text \<open>
  A task whose first attempt broke off after three of six bytes: the partial file is on
  the disk, the total size is known, one retry is used.
\<close>

definition task_ex :: DownloadTask where
  "task_ex = \<lparr>url = ''http://host/ep1'', filename = ''out/ep1.mp4'', headers = [],
     episode_number = 1, episode_title = ''One'', file_size = 6, downloaded = 3,
     status = Pending, retry_count = 1, max_retries = 3\<rparr>"

definition disk_ex :: disk where
  "disk_ex = [''out/ep1.mp4'' \<mapsto> ''abc'']"

text \<open>A server without support for ranges: it answers every request with 200 and the whole file.\<close>

definition server_200 :: "string \<Rightarrow> (string \<times> string) list \<Rightarrow> error + response" where
  "server_200 u request_headers =
     Inr \<lparr>resp_status = 200, content_length = Some 6, body = [''abcd'', ''ef''], body_end = None\<rparr>"

definition env_200 :: attempt_env where
  "env_200 = \<lparr>session_get = server_200, makedirs_ok = True, open_ok = True, save_fault = NoFault\<rparr>"

text \<open>A server whose body breaks off after three of the six bytes it announced.\<close>

definition server_breaks :: "string \<Rightarrow> (string \<times> string) list \<Rightarrow> error + response" where
  "server_breaks u request_headers =
     Inr \<lparr>resp_status = 200, content_length = Some 6, body = [''abc''],
          body_end = Some PayloadError\<rparr>"

definition env_breaks :: attempt_env where
  "env_breaks = \<lparr>session_get = server_breaks, makedirs_ok = True, open_ok = True, save_fault = NoFault\<rparr>"

text \<open>A world in which the destination directory cannot be created.\<close>

definition env_storage :: attempt_env where
  "env_storage = \<lparr>session_get = server_200, makedirs_ok = False, open_ok = True, save_fault = NoFault\<rparr>"

definition manager_ex :: manager where
  "manager_ex = \<lparr>max_concurrent = 3, chunk_size = 1048576, download_tasks = [],
     resume_data_file = ''download_resume.json''\<rparr>"

text \<open>
  What \<^verbatim>\<open>load_resume_data\<close> keeps and what it makes of it: a recorded task is kept when
  its destination exists and is not empty, and its counter becomes the size of the file.
\<close>

definition getsize :: "disk \<Rightarrow> path \<Rightarrow> int" where
  "getsize d p = (case d p of None \<Rightarrow> 0 | Some content \<Rightarrow> int (length content))"

definition has_partial_file :: "disk \<Rightarrow> DownloadTask \<Rightarrow> bool" where
  "has_partial_file d task = (d (filename task) \<noteq> None \<and> getsize d (filename task) > 0)"

definition restored :: "disk \<Rightarrow> DownloadTask \<Rightarrow> DownloadTask" where
  "restored d task = task\<lparr>downloaded := getsize d (filename task), status := Paused\<rparr>"

text \<open>
  A manifest of two paused tasks. The destination of the first is not on the disk; the
  second recorded three bytes and its file has five.
\<close>

definition recorded_ex :: "DownloadTask list" where
  "recorded_ex =
     [task_ex\<lparr>filename := ''out/ep2.mp4'', downloaded := 7, status := Paused\<rparr>,
      task_ex\<lparr>status := Paused\<rparr>]"

definition disk_resume_ex :: disk where
  "disk_resume_ex =
     [''out/ep1.mp4'' \<mapsto> ''abcde'', ''download_resume.json'' \<mapsto> json_dump_indent2 recorded_ex]"

text \<open>The same disk after a write of the manifest that broke off after ten bytes.\<close>

definition disk_truncated_ex :: disk where
  "disk_truncated_ex =
     [''out/ep1.mp4'' \<mapsto> ''abcde'', ''download_resume.json'' \<mapsto> take 10 (json_dump_indent2 recorded_ex)]"

text \<open>A manager whose only task is paused.\<close>

definition manager_paused_ex :: manager where
  "manager_paused_ex = manager_ex\<lparr>download_tasks := [task_ex\<lparr>status := Paused\<rparr>]\<rparr>"



text \<open>A new task, and the store when the callbacks see its last chunk on an empty disk.\<close>

definition task_new_ex :: DownloadTask where
  "task_new_ex = task_ex\<lparr>file_size := 0, downloaded := 0, retry_count := 0\<rparr>"


text \<open>
  A run with the limit 1 and two tasks: the start, and the state when the coroutine of
  the first task holds the only permit.
\<close>

definition manager_two_ex :: manager where
  "manager_two_ex =
     manager_ex\<lparr>max_concurrent := 1,
       download_tasks := [task_ex, task_new_ex\<lparr>filename := ''out/ep2.mp4''\<rparr>]\<rparr>"

definition limit0_ex :: run_state where
  "limit0_ex = \<lparr>mgr = manager_two_ex, files = disk_ex, workers = [Waiting, Waiting], permits = 1\<rparr>"

definition limit1_ex :: run_state where
  "limit1_ex =
     \<lparr>mgr = manager_two_ex\<lparr>download_tasks :=
              [task_ex\<lparr>status := Downloading\<rparr>, task_new_ex\<lparr>filename := ''out/ep2.mp4''\<rparr>]\<rparr>,
      files = disk_ex,
      workers = [Running [(''Range'', ''bytes=3-'')] Append, Waiting],
      permits = 0\<rparr>"

text \<open>A task that allows no retry, and a world in which the connection fails.\<close>

definition task_no_retry_ex :: DownloadTask where
  "task_no_retry_ex = task_new_ex\<lparr>max_retries := 0\<rparr>"

definition server_down :: "string \<Rightarrow> (string \<times> string) list \<Rightarrow> error + response" where
  "server_down u request_headers = Inl ConnectionError"

definition env_down :: attempt_env where
  "env_down = \<lparr>session_get = server_down, makedirs_ok = True, open_ok = True, save_fault = NoFault\<rparr>"

text \<open>
  A run with the limit 1 whose first task is marked as downloading from the start: the
  start, and the state when the coroutine of the second task holds the permit.
\<close>

definition manager_stale_ex :: manager where
  "manager_stale_ex =
     manager_ex\<lparr>max_concurrent := 1,
       download_tasks := [task_ex\<lparr>status := Downloading\<rparr>,
                          task_new_ex\<lparr>filename := ''out/ep2.mp4''\<rparr>]\<rparr>"

definition stale0_ex :: run_state where
  "stale0_ex = \<lparr>mgr = manager_stale_ex, files = disk_ex, workers = [Idle, Waiting], permits = 1\<rparr>"

definition stale1_ex :: run_state where
  "stale1_ex =
     \<lparr>mgr = manager_stale_ex\<lparr>download_tasks :=
              [task_ex\<lparr>status := Downloading\<rparr>,
               task_new_ex\<lparr>filename := ''out/ep2.mp4'', status := Downloading\<rparr>]\<rparr>,
      files = disk_ex,
      workers = [Idle, Running [] Write],
      permits = 0\<rparr>"

text \<open>
  A run of one new task with three retries whose every attempt finds the connection
  down: three rounds of acquire and finish.
\<close>

definition manager_fresh_ex :: manager where
  "manager_fresh_ex = manager_ex\<lparr>download_tasks := [task_new_ex]\<rparr>"

definition fresh0_ex :: run_state where
  "fresh0_ex = \<lparr>mgr = manager_fresh_ex, files = disk_ex, workers = [Waiting], permits = 3\<rparr>"

definition three_failures_ex :: "event list" where
  "three_failures_ex =
     [Acquire 0, Finish 0 env_down, NextRound,
      Acquire 0, Finish 0 env_down, NextRound,
      Acquire 0, Finish 0 env_down]"

definition fresh_failed_ex :: run_state where
  "fresh_failed_ex =
     \<lparr>mgr = manager_ex\<lparr>download_tasks := [task_new_ex\<lparr>status := Failed, retry_count := 3\<rparr>]\<rparr>,
      files = disk_ex, workers = [Done], permits = 3\<rparr>"

section \<open>Properties of the summary\<close>

lemma status_str_inj: "status_str a = status_str b \<longleftrightarrow> a = b"
  by (cases a; cases b) simp_all

lemma status_str_not_total: "status_str a \<noteq> ''total''"
  by (cases a) simp_all

lemma summary_loop_lookup:
  "summary_loop tasks m k =
     map_option (\<lambda>n. n + int (length (filter (\<lambda>t. status_str (status t) = k) tasks))) (m k)"
proof (induction tasks arbitrary: m)
  case Nil
  show ?case by (simp add: option.map_ident)
next
  case (Cons task rest)
  show ?case
    by (cases "m (status_str (status task))"; cases "m k")
       (auto simp: Cons.IH)
qed

lemma status_str_eq:
  "status_str x = ''pending'' \<longleftrightarrow> x = Pending"
  "status_str x = ''downloading'' \<longleftrightarrow> x = Downloading"
  "status_str x = ''completed'' \<longleftrightarrow> x = Completed"
  "status_str x = ''failed'' \<longleftrightarrow> x = Failed"
  "status_str x = ''paused'' \<longleftrightarrow> x = Paused"
  by (cases x; simp)+

lemma summary_bucket:
  "get_download_summary tasks (status_str s) =
     (if s = Paused then None else Some (count_status s tasks))"
  by (cases s)
     (simp_all add: get_download_summary_def summary_loop_lookup summary_init_def
        count_status_def status_str_eq)

lemma count_status_partition:
  "count_status Pending tasks + count_status Downloading tasks + count_status Completed tasks
     + count_status Failed tasks + count_status Paused tasks = int (length tasks)"
proof (induction tasks)
  case Nil
  show ?case by (simp add: count_status_def)
next
  case (Cons task rest)
  then show ?case by (cases "status task") (simp_all add: count_status_def)
qed

lemma summary_total: "get_download_summary tasks ''total'' = Some (int (length tasks))"
  by (simp add: get_download_summary_def summary_loop_lookup summary_init_def status_str_not_total)

lemma summary_dom:
  "dom (get_download_summary tasks) = {''total'', ''completed'', ''failed'', ''pending'', ''downloading''}"
  by (auto simp: get_download_summary_def summary_loop_lookup summary_init_def dom_def split: if_splits)

text \<open>
  Claim C10. For every task list, the summary's \<^verbatim>\<open>total\<close> is the number of tasks, and
  the entries \<^verbatim>\<open>pending\<close>, \<^verbatim>\<open>downloading\<close>, \<^verbatim>\<open>completed\<close> and \<^verbatim>\<open>failed\<close> are the numbers of
  tasks in these statuses. The summary has no entry \<^verbatim>\<open>paused\<close>: a paused task counts in
  the total only, so the four counts add up to the total less the paused tasks.
\<close>

theorem summary_counts:
  "get_download_summary tasks ''total'' = Some (int (length tasks)) \<and>
   get_download_summary tasks ''pending'' = Some (count_status Pending tasks) \<and>
   get_download_summary tasks ''downloading'' = Some (count_status Downloading tasks) \<and>
   get_download_summary tasks ''completed'' = Some (count_status Completed tasks) \<and>
   get_download_summary tasks ''failed'' = Some (count_status Failed tasks) \<and>
   get_download_summary tasks ''paused'' = None \<and>
   dom (get_download_summary tasks) = {''total'', ''completed'', ''failed'', ''pending'', ''downloading''} \<and>
   count_status Pending tasks + count_status Downloading tasks + count_status Completed tasks
     + count_status Failed tasks = int (length tasks) - count_status Paused tasks"
proof -
  have "get_download_summary tasks ''pending'' = Some (count_status Pending tasks)"
    using summary_bucket [of tasks Pending] by simp
  moreover have "get_download_summary tasks ''downloading'' = Some (count_status Downloading tasks)"
    using summary_bucket [of tasks Downloading] by simp
  moreover have "get_download_summary tasks ''completed'' = Some (count_status Completed tasks)"
    using summary_bucket [of tasks Completed] by simp
  moreover have "get_download_summary tasks ''failed'' = Some (count_status Failed tasks)"
    using summary_bucket [of tasks Failed] by simp
  moreover have "get_download_summary tasks ''paused'' = None"
    using summary_bucket [of tasks Paused] by simp
  moreover have "count_status Pending tasks + count_status Downloading tasks
      + count_status Completed tasks + count_status Failed tasks
      = int (length tasks) - count_status Paused tasks"
    using count_status_partition [of tasks] by simp
  ultimately show ?thesis
    using summary_total [of tasks] summary_dom [of tasks] by simp
qed

text \<open>The summary of a paused and a completed task: two in total, one counted.\<close>

theorem summary_counts_witness:
  "get_download_summary [task_ex\<lparr>status := Paused\<rparr>, task_ex\<lparr>status := Completed\<rparr>] ''total'' = Some 2 \<and>
   get_download_summary [task_ex\<lparr>status := Paused\<rparr>, task_ex\<lparr>status := Completed\<rparr>] ''completed'' = Some 1 \<and>
   get_download_summary [task_ex\<lparr>status := Paused\<rparr>, task_ex\<lparr>status := Completed\<rparr>] ''pending'' = Some 0 \<and>
   get_download_summary [task_ex\<lparr>status := Paused\<rparr>, task_ex\<lparr>status := Completed\<rparr>] ''paused'' = None"
  using summary_counts [of "[task_ex\<lparr>status := Paused\<rparr>, task_ex\<lparr>status := Completed\<rparr>]"]
  by (simp add: count_status_def)

section \<open>Properties of the transfer\<close>

lemma write_chunks_result:
  "write_chunks chunks content task seen =
     (content @ concat chunks,
      task\<lparr>downloaded := downloaded task + int (length (concat chunks))\<rparr>,
      seen @ map (\<lambda>k. task\<lparr>downloaded := downloaded task + int (length (concat (take (Suc k) chunks)))\<rparr>)
               [0..<length chunks])"
proof (induction chunks arbitrary: content task seen)
  case Nil
  show ?case by simp
next
  case (Cons chunk rest)
  show ?case
    by (simp add: Cons.IH Let_def add.assoc upt_conv_Cons map_Suc_upt [symmetric] del: upt_Suc)
qed

lemma resume_answered_200:
  assumes "downloaded task > 0" and "d (filename task) = Some old"
    and "session_get env (url task)
           (AList.update ''Range'' (''bytes='' @ str_int (downloaded task) @ ''-'') (headers task)) = Inr r"
    and "resp_status r = 200" and "body_end r = None"
    and "dirname (filename task) \<noteq> []" and "makedirs_ok env" and "open_ok env"
  shows "disk_after (try_block env d task) (filename task) = Some (old @ concat (body r)) \<and>
         downloaded (task_after (try_block env d task)) = downloaded task + int (length (concat (body r))) \<and>
         status (task_after (try_block env d task)) = Completed"
  using assms
  by (simp add: try_block_def prepare_def transfer_def set_file_size_def write_chunks_result Let_def
      split: option.splits)

text \<open>
  The example task and disk are what a first attempt leaves when the body breaks off
  after three bytes: the partial file, the known size, one retry used, pending again.
\<close>

lemma task_ex_from_first_attempt:
  "download_with_progress json_dump_indent2 env_breaks 0
     (manager_ex\<lparr>download_tasks := [task_new_ex]\<rparr>) Map.empty
   = (manager_ex\<lparr>download_tasks := [task_ex]\<rparr>, disk_ex, False)"
  by (simp add: download_with_progress_def handlers_def except_Exception_def
      try_block_def prepare_def transfer_def set_file_size_def Let_def dirname_def
      env_breaks_def server_breaks_def task_new_ex_def task_ex_def manager_ex_def disk_ex_def)

text \<open>
  Claim C1 asks that a resumed request answered with 200 restarts from offset 0 and
  truncates the partial file. The function chooses the mode and keeps the counter before
  it sees the status: at the example, the destination holds the three old bytes followed
  by the six bytes of the body, and the counter ends at nine for a file of six bytes.
\<close>

theorem resume_answered_200_appends:
  "disk_after (try_block env_200 disk_ex task_ex) ''out/ep1.mp4'' = Some ''abcabcdef'' \<and>
   downloaded (task_after (try_block env_200 disk_ex task_ex)) = 9 \<and>
   file_size (task_after (try_block env_200 disk_ex task_ex)) = 6 \<and>
   status (task_after (try_block env_200 disk_ex task_ex)) = Completed"
  by (simp add: try_block_def prepare_def transfer_def set_file_size_def Let_def
      env_200_def server_200_def disk_ex_def task_ex_def dirname_def)

text \<open>
  Claim C7 asks that the counter \<^verbatim>\<open>downloaded\<close> never exceeds a known \<^verbatim>\<open>file_size\<close>. In the
  same attempt the progress callbacks see the task with the known size 6 and the counter
  at 7 and then at 9.
\<close>

theorem resumed_counter_exceeds_size:
  "map (\<lambda>task. (file_size task, downloaded task)) (reported (try_block env_200 disk_ex task_ex))
     = [(6, 7), (6, 9)]"
  by (simp add: try_block_def prepare_def transfer_def set_file_size_def Let_def
      env_200_def server_200_def disk_ex_def task_ex_def dirname_def)

section \<open>Properties of the retry handler\<close>

text \<open>
  Claim C5, as amended. The handler does not classify: whatever exception but the
  cancellation ends the attempt (connection, timeout, HTTP status, malformed URL,
  unsupported protocol, storage), the retry count goes up by one, and the task is queued
  again as pending exactly when the new count is below \<^verbatim>\<open>max_retries\<close>, and failed
  otherwise.
\<close>

theorem failures_not_classified:
  assumes "raised res = Some e" and "e \<noteq> CancelledError" and "i < length (download_tasks m)"
  shows "retry_count (download_tasks (fst (handlers json_dump env i m res)) ! i)
           = retry_count (task_after res) + 1 \<and>
         status (download_tasks (fst (handlers json_dump env i m res)) ! i)
           = (if retry_count (task_after res) + 1 < max_retries (task_after res)
              then Pending else Failed) \<and>
         retry_round (download_tasks (fst (handlers json_dump env i m res)) ! i)
           = (retry_count (task_after res) + 1 < max_retries (task_after res))"
  using assms
  by (simp add: handlers_def except_Exception_def retry_round_def Let_def)

text \<open>The directory cannot be created; the count goes from 1 to 2 of 3 and the task is pending.\<close>

theorem failures_not_classified_witness:
  "retry_count (download_tasks (fst (handlers json_dump_indent2 env_storage 0
       (manager_ex\<lparr>download_tasks := [task_ex]\<rparr>)
       (try_block env_storage disk_ex task_ex))) ! 0) = 2 \<and>
   status (download_tasks (fst (handlers json_dump_indent2 env_storage 0
       (manager_ex\<lparr>download_tasks := [task_ex]\<rparr>)
       (try_block env_storage disk_ex task_ex))) ! 0) = Pending"
proof -
  have r: "raised (try_block env_storage disk_ex task_ex) = Some StorageError"
    by (simp add: try_block_def prepare_def transfer_def set_file_size_def Let_def
        env_storage_def server_200_def disk_ex_def task_ex_def)
  have t: "retry_count (task_after (try_block env_storage disk_ex task_ex)) = 1 \<and>
           max_retries (task_after (try_block env_storage disk_ex task_ex)) = 3"
    by (simp add: try_block_def prepare_def transfer_def set_file_size_def Let_def
        env_storage_def server_200_def disk_ex_def task_ex_def)
  show ?thesis
    using failures_not_classified [OF r, of 0 "manager_ex\<lparr>download_tasks := [task_ex]\<rparr>"
        json_dump_indent2 env_storage] t
    by simp
qed

text \<open>
  Claim C5 as stated fails: a storage failure with budget left is not terminal. The task
  ends the attempt pending and the next round selects it.
\<close>

theorem storage_failure_requeued:
  "raised (try_block env_storage disk_ex task_ex) = Some StorageError \<and>
   map status (download_tasks (fst (download_with_progress json_dump_indent2 env_storage 0
       (manager_ex\<lparr>download_tasks := [task_ex]\<rparr>) disk_ex))) = [Pending] \<and>
   map retry_round (download_tasks (fst (download_with_progress json_dump_indent2 env_storage 0
       (manager_ex\<lparr>download_tasks := [task_ex]\<rparr>) disk_ex))) = [True]"
  by (simp add: download_with_progress_def handlers_def except_Exception_def retry_round_def
      try_block_def prepare_def transfer_def set_file_size_def Let_def
      env_storage_def server_200_def disk_ex_def task_ex_def manager_ex_def)

section \<open>Properties of the resume manifest\<close>

text \<open>
  Claim C9. When the manifest is absent, or present and reading or decoding it raises,
  \<^verbatim>\<open>load_resume_data\<close> returns \<^verbatim>\<open>False\<close> without raising and leaves the manager as it
  was, which is also what it does on the disk without the manifest.
\<close>

theorem missing_or_corrupt_manifest:
  assumes "d (resume_data_file m) = None \<or>
           (\<exists>text. d (resume_data_file m) = Some text \<and> json_load text = None)"
  shows "load_resume_data json_load m d = (m, False) \<and>
         load_resume_data json_load m d = load_resume_data json_load m (d(resume_data_file m := None))"
  using assms by (auto simp: load_resume_data_def)

lemma truncated_not_decoded:
  "json_load_only recorded_ex (take 10 (json_dump_indent2 recorded_ex)) = None"
proof -
  have "length (take 10 (json_dump_indent2 recorded_ex)) \<le> 10" by simp
  moreover have "length (json_dump_indent2 recorded_ex) > 10"
    by (simp add: json_dump_indent2_def json_object_def json_array_def newline_indent_def
        json_string_def recorded_ex_def)
  ultimately have "take 10 (json_dump_indent2 recorded_ex) \<noteq> json_dump_indent2 recorded_ex"
    by (metis not_less)
  then show ?thesis by (simp add: json_load_only_def)
qed

text \<open>A manifest cut off after ten bytes, and a disk without a manifest.\<close>

theorem missing_or_corrupt_manifest_witness:
  "load_resume_data (json_load_only recorded_ex) manager_ex disk_truncated_ex = (manager_ex, False) \<and>
   load_resume_data (json_load_only recorded_ex) manager_ex disk_ex = (manager_ex, False)"
proof -
  have a: "disk_truncated_ex (resume_data_file manager_ex) = None \<or>
      (\<exists>text. disk_truncated_ex (resume_data_file manager_ex) = Some text \<and>
         json_load_only recorded_ex text = None)"
    using truncated_not_decoded by (simp add: disk_truncated_ex_def manager_ex_def)
  have b: "disk_ex (resume_data_file manager_ex) = None \<or>
      (\<exists>text. disk_ex (resume_data_file manager_ex) = Some text \<and>
         json_load_only recorded_ex text = None)"
    by (simp add: disk_ex_def manager_ex_def)
  show ?thesis
    using missing_or_corrupt_manifest
            [where d = disk_truncated_ex and m = manager_ex and json_load = "json_load_only recorded_ex", OF a]
          missing_or_corrupt_manifest
            [where d = disk_ex and m = manager_ex and json_load = "json_load_only recorded_ex", OF b]
    by simp
qed

lemma load_loop_recorded:
  "load_loop d (map TaskDict recorded) tasks n =
     (tasks @ map (restored d) (filter (has_partial_file d) recorded),
      n + length (filter (has_partial_file d) recorded), False)"
proof (induction recorded arbitrary: tasks n)
  case Nil
  show ?case by simp
next
  case (Cons task rest)
  show ?case
    by (cases "d (filename task)")
       (simp_all add: Cons.IH has_partial_file_def restored_def getsize_def)
qed

text \<open>
  Claim C2, as amended. From a manifest that decodes to a list of recorded tasks,
  \<^verbatim>\<open>load_resume_data\<close> appends, in order, the recorded tasks whose destination exists and
  is not empty, each paused and with \<^verbatim>\<open>downloaded\<close> set to the size of the file on the
  disk (not to the minimum with the recorded value); the other recorded tasks are left
  out. It returns whether it appended a task.
\<close>

theorem restore_keeps_partial_files:
  assumes "d (resume_data_file m) = Some text"
    and "json_load text = Some (TasksList (map TaskDict recorded))"
  shows "load_resume_data json_load m d =
           (m\<lparr>download_tasks :=
                download_tasks m @ map (restored d) (filter (has_partial_file d) recorded)\<rparr>,
            filter (has_partial_file d) recorded \<noteq> [])"
  using assms by (simp add: load_resume_data_def load_loop_recorded)

text \<open>The manifest of the example: one of two tasks comes back, with the size of its file.\<close>

theorem restore_keeps_partial_files_witness:
  "load_resume_data (json_load_only recorded_ex) manager_ex disk_resume_ex =
     (manager_ex\<lparr>download_tasks := [task_ex\<lparr>downloaded := 5, status := Paused\<rparr>]\<rparr>, True)"
proof -
  have a: "disk_resume_ex (resume_data_file manager_ex) = Some (json_dump_indent2 recorded_ex)"
    by (simp add: disk_resume_ex_def manager_ex_def)
  have b: "json_load_only recorded_ex (json_dump_indent2 recorded_ex)
             = Some (TasksList (map TaskDict recorded_ex))"
    by (simp add: json_load_only_def)
  have c: "filter (has_partial_file disk_resume_ex) recorded_ex = [task_ex\<lparr>status := Paused\<rparr>]"
    by (simp add: has_partial_file_def getsize_def disk_resume_ex_def recorded_ex_def task_ex_def)
  have e: "restored disk_resume_ex (task_ex\<lparr>status := Paused\<rparr>)
             = task_ex\<lparr>downloaded := 5, status := Paused\<rparr>"
    by (simp add: restored_def getsize_def disk_resume_ex_def task_ex_def)
  show ?thesis
    using restore_keeps_partial_files
            [where d = disk_resume_ex and m = manager_ex and json_load = "json_load_only recorded_ex"
               and recorded = recorded_ex, OF a b] c e
    by (simp add: manager_ex_def)
qed

text \<open>
  Claim C2 as stated fails at the example: the recorded task for \<^verbatim>\<open>out/ep2.mp4\<close> is
  dropped, and the task for \<^verbatim>\<open>out/ep1.mp4\<close>, recorded with three bytes, is restored with
  five, more than the recorded value.
\<close>

theorem restore_drops_and_overcounts:
  "map (\<lambda>task. (filename task, downloaded task)) recorded_ex
     = [(''out/ep2.mp4'', 7), (''out/ep1.mp4'', 3)] \<and>
   map (\<lambda>task. (filename task, downloaded task, status task))
     (download_tasks (fst (load_resume_data (json_load_only recorded_ex) manager_ex disk_resume_ex)))
     = [(''out/ep1.mp4'', 5, Paused)]"
proof -
  have "load_resume_data (json_load_only recorded_ex) manager_ex disk_resume_ex =
     (manager_ex\<lparr>download_tasks := [task_ex\<lparr>downloaded := 5, status := Paused\<rparr>]\<rparr>, True)"
    by (simp add: load_resume_data_def json_load_only_def disk_resume_ex_def manager_ex_def
        recorded_ex_def task_ex_def)
  then show ?thesis by (simp add: recorded_ex_def task_ex_def)
qed

text \<open>
  Claim C6, as amended. \<^verbatim>\<open>save_resume_data\<close> writes the manifest in place, without a
  temporary file: when nothing fails the file holds the complete new manifest; when the
  file cannot be opened the disk is as before; when the write breaks off after \<open>k\<close> bytes
  the file holds the first \<open>k\<close> bytes of the new manifest and the previous manifest is
  lost. No other file changes, and no exception leaves the function.
\<close>

theorem manifest_written_in_place:
  "save_resume_data json_dump NoFault m d (resume_data_file m) = Some (json_dump (resume_tasks m)) \<and>
   save_resume_data json_dump OpenFails m d = d \<and>
   save_resume_data json_dump (FailsAfter k) m d (resume_data_file m)
     = Some (take k (json_dump (resume_tasks m))) \<and>
   (p \<noteq> resume_data_file m \<longrightarrow> save_resume_data json_dump fault m d p = d p)"
  by (cases fault) (simp_all add: save_resume_data_def)

lemma manifest_paused_ex_head:
  "json_dump_indent2 (resume_tasks manager_paused_ex) = CHR ''{'' # tl (json_dump_indent2 (resume_tasks manager_paused_ex))
   \<and> tl (json_dump_indent2 (resume_tasks manager_paused_ex)) \<noteq> []"
  by (simp add: json_dump_indent2_def json_object_def newline_indent_def)

text \<open>A write that breaks off after one byte leaves the opening brace; the partial download is untouched.\<close>

theorem manifest_written_in_place_witness:
  "save_resume_data json_dump_indent2 (FailsAfter 1) manager_paused_ex disk_resume_ex
     ''download_resume.json'' = Some ''{'' \<and>
   save_resume_data json_dump_indent2 (FailsAfter 1) manager_paused_ex disk_resume_ex
     ''out/ep1.mp4'' = Some ''abcde''"
proof -
  have "''out/ep1.mp4'' \<noteq> resume_data_file manager_paused_ex"
    by (simp add: manager_paused_ex_def manager_ex_def)
  moreover have "take 1 (json_dump_indent2 (resume_tasks manager_paused_ex)) = ''{''"
    using manifest_paused_ex_head by (metis One_nat_def take0 take_Suc_Cons)
  moreover have "resume_data_file manager_paused_ex = ''download_resume.json''"
    by (simp add: manager_paused_ex_def manager_ex_def)
  ultimately show ?thesis
    using manifest_written_in_place [of json_dump_indent2 manager_paused_ex disk_resume_ex 1
        "''out/ep1.mp4''" "FailsAfter 1"]
    by (simp add: disk_resume_ex_def)
qed

text \<open>
  Claim C6 as stated fails: the disk holds a complete earlier manifest, the write of the
  new one breaks off after one byte, and the file is then neither the earlier manifest
  nor the new one.
\<close>

theorem manifest_write_truncates:
  "disk_resume_ex ''download_resume.json'' = Some (json_dump_indent2 recorded_ex) \<and>
   save_resume_data json_dump_indent2 (FailsAfter 1) manager_paused_ex disk_resume_ex
     ''download_resume.json'' = Some ''{'' \<and>
   ''{'' \<noteq> json_dump_indent2 recorded_ex \<and>
   ''{'' \<noteq> json_dump_indent2 (resume_tasks manager_paused_ex)"
proof -
  have a: "json_dump_indent2 recorded_ex = CHR ''{'' # tl (json_dump_indent2 recorded_ex)
      \<and> tl (json_dump_indent2 recorded_ex) \<noteq> []"
    by (simp add: json_dump_indent2_def json_object_def newline_indent_def)
  have b: "take 1 (json_dump_indent2 (resume_tasks manager_paused_ex)) = ''{''"
    using manifest_paused_ex_head by (metis One_nat_def take0 take_Suc_Cons)
  have c: "''{'' \<noteq> json_dump_indent2 recorded_ex"
    using a by (metis list.sel(3))
  have e: "''{'' \<noteq> json_dump_indent2 (resume_tasks manager_paused_ex)"
    using manifest_paused_ex_head by (metis list.sel(3))
  show ?thesis
    using b c e
    by (simp add: save_resume_data_def disk_resume_ex_def manager_paused_ex_def manager_ex_def)
qed

section \<open>Properties of the progress tracker\<close>









section \<open>Properties of the scheduler\<close>

lemma filter_length_update:
  "i < length xs \<Longrightarrow>
   length (filter P (xs[i := y])) + (if P (xs ! i) then 1 else 0)
     = length (filter P xs) + (if P y then 1 else 0)"
proof (induction xs arbitrary: i)
  case Nil
  then show ?case by simp
next
  case (Cons x xs)
  then show ?case by (cases i) auto
qed

lemma filter_length_related:
  "list_all2 (\<lambda>x y. P x \<longrightarrow> Q y) xs ys \<Longrightarrow> length (filter P xs) \<le> length (filter Q ys)"
  by (induction xs ys rule: list_all2_induct) auto

lemma prepare_fields:
  "prepare d task = (task', request_headers, mode) \<Longrightarrow>
   status task' = Downloading \<and> retry_count task' = retry_count task \<and>
   max_retries task' = max_retries task"
  by (auto simp: prepare_def split: if_splits)

lemma set_file_size_fields:
  "status (set_file_size r task) = status task \<and>
   retry_count (set_file_size r task) = retry_count task \<and>
   max_retries (set_file_size r task) = max_retries task"
  by (simp add: set_file_size_def split: option.splits)

lemma transfer_fields:
  "retry_count (task_after (transfer env d (task, request_headers, mode))) = retry_count task \<and>
   max_retries (task_after (transfer env d (task, request_headers, mode))) = max_retries task \<and>
   (raised (transfer env d (task, request_headers, mode)) = None \<longrightarrow>
      status (task_after (transfer env d (task, request_headers, mode))) = Completed)"
  by (simp add: transfer_def Let_def write_chunks_result set_file_size_fields
      split: sum.splits option.splits)

lemma handlers_task:
  assumes "handlers json_dump env i m res = (m', d', reraised)"
  shows "\<exists>task'. download_tasks m' = (download_tasks m)[i := task'] \<and>
           max_retries task' = max_retries (task_after res) \<and>
           (raised res = None \<longrightarrow> task' = task_after res) \<and>
           (raised res = Some CancelledError \<longrightarrow> task' = (task_after res)\<lparr>status := Paused\<rparr>) \<and>
           (raised res \<noteq> None \<and> raised res \<noteq> Some CancelledError \<longrightarrow>
              retry_count task' = retry_count (task_after res) + 1 \<and>
              status task' = (if retry_count (task_after res) + 1 < max_retries (task_after res)
                              then Pending else Failed))"
  using assms
  by (auto simp: handlers_def except_Exception_def Let_def split: option.splits if_splits)

lemma handlers_not_downloading:
  assumes "handlers json_dump env i m res = (m', d', reraised)"
    and "raised res = None \<longrightarrow> status (task_after res) = Completed"
  shows "\<exists>task'. download_tasks m' = (download_tasks m)[i := task'] \<and> status task' \<noteq> Downloading"
  using assms
  by (auto simp: handlers_def except_Exception_def Let_def split: option.splits if_splits)

lemma spawn_not_running: "filter is_running (spawn selected tasks) = []"
  by (induction tasks) (simp_all add: spawn_def)

lemma filter_length_three:
  "length xs = length ys \<Longrightarrow> length ys = length zs \<Longrightarrow>
   (\<forall>i < length xs. P (xs ! i) \<longrightarrow> Q (ys ! i) \<or> R (zs ! i)) \<Longrightarrow>
   length (filter P xs) \<le> length (filter Q ys) + length (filter R zs)"
proof (induction xs ys zs rule: list_induct3)
  case Nil
  show ?case by simp
next
  case (Cons x xs y ys z zs)
  have head: "P x \<longrightarrow> Q y \<or> R z"
    using Cons.prems by auto
  have "\<forall>i < length xs. P (xs ! i) \<longrightarrow> Q (ys ! i) \<or> R (zs ! i)"
    using Cons.prems by auto
  then have "length (filter P xs) \<le> length (filter Q ys) + length (filter R zs)"
    by (rule Cons.IH)
  then show ?case using head by auto
qed

lemma limit_inv_start:
  assumes "download_all_start m d = Some s0"
  shows "limit_inv (download_tasks m) (nat (max_concurrent m)) s0"
proof -
  have s0: "s0 = \<lparr>mgr = m, files = d, workers = spawn first_round (download_tasks m),
                 permits = nat (max_concurrent m)\<rparr>"
    using assms by (simp add: download_all_start_def split: if_splits)
  show ?thesis
    by (simp add: limit_inv_def s0 spawn_not_running) (simp add: spawn_def)
qed

lemma limit_inv_step:
  assumes "step json_dump s s'" and "limit_inv initial c s"
  shows "limit_inv initial c s'"
  using assms
proof (induction rule: step.induct)
  case (acquire i s task' request_headers mode)
  have st: "status task' = Downloading"
    using prepare_fields [OF acquire(5)] by simp
  have cnt: "length (filter is_running ((workers s)[i := Running request_headers mode]))
               = length (filter is_running (workers s)) + 1"
    using filter_length_update [OF acquire(1), of is_running "Running request_headers mode"]
      acquire(3) by simp
  show ?case
    using acquire(1,2,4,6) cnt st by (auto simp: limit_inv_def nth_list_update)
next
  case (finish i s request_headers mode env m' d' reraised)
  obtain task' where m': "download_tasks m' = (download_tasks (mgr s))[i := task']"
    and nd: "status task' \<noteq> Downloading"
    using handlers_not_downloading [OF finish(4)]
      transfer_fields [of env "files s" "download_tasks (mgr s) ! i" request_headers mode]
    by blast
  have cnt: "length (filter is_running ((workers s)[i := Done])) + 1
               = length (filter is_running (workers s))"
    using filter_length_update [OF finish(1), of is_running Done] finish(3) by simp
  show ?case
    using finish(1,2,5) cnt m' nd by (auto simp: limit_inv_def nth_list_update)
next
  case (cancel_waiting i s)
  have cnt: "length (filter is_running ((workers s)[i := Done]))
               = length (filter is_running (workers s))"
    using filter_length_update [OF cancel_waiting(1), of is_running Done] cancel_waiting(2) by simp
  show ?case
    using cancel_waiting cnt by (auto simp: limit_inv_def nth_list_update)
next
  case (next_round s)
  have none: "filter is_running (workers s) = []"
    using next_round(1) by (auto simp: filter_empty_conv list_all_iff)
  have idle: "\<forall>i < length (workers s). \<not> is_running (workers s ! i)"
    using next_round(1) by (auto simp: list_all_length)
  show ?case
    using next_round(3) none idle
    by (auto simp: limit_inv_def spawn_not_running) (simp add: spawn_def)
qed

lemma limit_inv_run:
  assumes "(step json_dump)\<^sup>*\<^sup>* s0 s" and "limit_inv initial c s0"
  shows "limit_inv initial c s"
  using assms by (induction rule: rtranclp_induct) (auto intro: limit_inv_step)

lemma budget_inv_start:
  assumes "download_all_start m d = Some s0" and "list_all within_budget (download_tasks m)"
  shows "budget_inv s0"
proof -
  have s0: "s0 = \<lparr>mgr = m, files = d, workers = spawn first_round (download_tasks m),
                 permits = nat (max_concurrent m)\<rparr>"
    using assms(1) by (simp add: download_all_start_def split: if_splits)
  show ?thesis
    using assms(2) by (auto simp: budget_inv_def s0 spawn_def list_all2_conv_all_nth list_all_length)
qed

lemma handlers_within_budget:
  assumes "handlers json_dump env i m res = (m', d', reraised)"
    and "retry_count (task_after res) < max_retries (task_after res)"
    and "raised res = None \<longrightarrow> status (task_after res) = Completed"
  shows "\<exists>task'. download_tasks m' = (download_tasks m)[i := task'] \<and> within_budget task'"
  using assms
  by (auto simp: handlers_def except_Exception_def within_budget_def Let_def
      split: option.splits if_splits)

lemma budget_inv_step:
  assumes "step json_dump s s'" and "budget_inv s"
  shows "budget_inv s'"
  using assms
proof (induction rule: step.induct)
  case (acquire i s task' request_headers mode)
  have old: "within_budget (download_tasks (mgr s) ! i) \<and> first_round (download_tasks (mgr s) ! i)"
    using acquire(1,2,3,6) by (auto simp: budget_inv_def list_all2_conv_all_nth)
  have "within_budget task' \<and> status task' = Downloading"
    using prepare_fields [OF acquire(5)] old
    by (auto simp: within_budget_def first_round_def)
  then show ?case
    using acquire(6) by (simp add: budget_inv_def list_all2_update_cong)
next
  case (finish i s request_headers mode env m' d' reraised)
  have old: "within_budget (download_tasks (mgr s) ! i) \<and>
             status (download_tasks (mgr s) ! i) = Downloading"
    using finish(1,2,3,5) by (auto simp: budget_inv_def list_all2_conv_all_nth)
  then have lt: "retry_count (download_tasks (mgr s) ! i) < max_retries (download_tasks (mgr s) ! i)"
    by (simp add: within_budget_def)
  obtain task' where m': "download_tasks m' = (download_tasks (mgr s))[i := task']"
    and wb: "within_budget task'"
    using handlers_within_budget [OF finish(4)] lt
      transfer_fields [of env "files s" "download_tasks (mgr s) ! i" request_headers mode]
    by auto
  show ?case
    using finish(5) wb m' by (simp add: budget_inv_def list_all2_update_cong)
next
  case (cancel_waiting i s)
  have "within_budget (download_tasks (mgr s) ! i)"
    using cancel_waiting by (auto simp: budget_inv_def list_all2_conv_all_nth)
  then have "list_all2 (\<lambda>task w. within_budget task \<and> (w = Waiting \<longrightarrow> first_round task) \<and>
                  (is_running w \<longrightarrow> status task = Downloading))
       ((download_tasks (mgr s))[i := download_tasks (mgr s) ! i]) ((workers s)[i := Done])"
    using cancel_waiting(3) by (simp add: budget_inv_def list_all2_update_cong del: list_update_id)
  then show ?case by (simp add: budget_inv_def)
next
  case (next_round s)
  then show ?case
    by (auto simp: budget_inv_def list_all2_conv_all_nth spawn_def retry_round_def first_round_def)
qed

lemma budget_inv_run:
  assumes "(step json_dump)\<^sup>*\<^sup>* s0 s" and "budget_inv s0"
  shows "budget_inv s"
  using assms by (induction rule: rtranclp_induct) (auto intro: budget_inv_step)

lemma failed_untouched_step:
  assumes "step json_dump s s'" and "budget_inv s"
    and "i < length (download_tasks (mgr s))"
    and "status (download_tasks (mgr s) ! i) = Failed"
  shows "download_tasks (mgr s') ! i = download_tasks (mgr s) ! i \<and>
         length (download_tasks (mgr s')) = length (download_tasks (mgr s))"
  using assms
proof (induction rule: step.induct)
  case (acquire j s task' request_headers mode)
  have "first_round (download_tasks (mgr s) ! j)"
    using acquire(1,2,3,6) by (auto simp: budget_inv_def list_all2_conv_all_nth)
  then have "j \<noteq> i" using acquire(8) by (auto simp: first_round_def)
  then show ?case by simp
next
  case (finish j s request_headers mode env m' d' reraised)
  have "status (download_tasks (mgr s) ! j) = Downloading"
    using finish(1,2,3,5) by (auto simp: budget_inv_def list_all2_conv_all_nth)
  then have ne: "j \<noteq> i" using finish(7) by auto
  obtain task' where "download_tasks m' = (download_tasks (mgr s))[j := task']"
    using handlers_task [OF finish(4)] by blast
  then show ?case using ne by simp
next
  case (cancel_waiting j s)
  then show ?case by simp
next
  case (next_round s)
  then show ?case by simp
qed

lemma failed_idle:
  assumes "budget_inv s" and "i < length (download_tasks (mgr s))"
    and "status (download_tasks (mgr s) ! i) = Failed"
  shows "workers s ! i \<noteq> Waiting \<and> \<not> is_running (workers s ! i)"
  using assms by (auto simp: budget_inv_def list_all2_conv_all_nth first_round_def)

lemma failed_untouched_run:
  assumes "(step json_dump)\<^sup>*\<^sup>* s s'" and "budget_inv s"
    and "i < length (download_tasks (mgr s))"
    and "status (download_tasks (mgr s) ! i) = Failed"
  shows "download_tasks (mgr s') ! i = download_tasks (mgr s) ! i \<and>
         length (download_tasks (mgr s')) = length (download_tasks (mgr s)) \<and> budget_inv s'"
  using assms
proof (induction rule: rtranclp_induct)
  case base
  then show ?case by simp
next
  case (step y z)
  then show ?case
    using failed_untouched_step [of json_dump y z i] budget_inv_step [of json_dump y z]
    by simp
qed

lemma budget_inv_bound:
  assumes "budget_inv s"
  shows "list_all (\<lambda>task. retry_count task \<le> max_retries task \<and>
            (retry_count task = max_retries task \<longrightarrow> status task = Failed))
           (download_tasks (mgr s))"
proof -
  have "\<forall>i < length (download_tasks (mgr s)). within_budget (download_tasks (mgr s) ! i)"
    using assms by (auto simp: budget_inv_def list_all2_conv_all_nth)
  then show ?thesis
    by (auto simp: list_all_length within_budget_def)
qed

text \<open>The named events are the steps, and the runs of events are the runs of steps.\<close>

lemma apply_event_step:
  assumes "apply_event json_dump s ev = Some s'"
  shows "step json_dump s s'"
proof (cases ev)
  case (Acquire i)
  obtain task' request_headers mode where
    p: "prepare (files s) (download_tasks (mgr s) ! i) = (task', request_headers, mode)"
    by (metis prod_cases3)
  show ?thesis
    using assms Acquire p step.acquire [of i s task' request_headers mode json_dump]
    by (auto simp: apply_event_def split: if_splits)
next
  case (Finish i env)
  show ?thesis
  proof (cases "workers s ! i")
    case (Running request_headers mode)
    obtain m' d' reraised where
      h: "handlers json_dump env i (mgr s)
            (transfer env (files s) (download_tasks (mgr s) ! i, request_headers, mode))
          = (m', d', reraised)"
      by (metis prod_cases3)
    show ?thesis
      using assms Finish Running h
        step.finish [of i s request_headers mode json_dump env m' d' reraised]
      by (auto simp: apply_event_def split: if_splits)
  qed (use assms Finish in \<open>auto simp: apply_event_def split: if_splits\<close>)
next
  case (CancelWaiting i)
  show ?thesis
    using assms CancelWaiting step.cancel_waiting [of i s json_dump]
    by (auto simp: apply_event_def split: if_splits)
next
  case NextRound
  show ?thesis
    using assms NextRound step.next_round [of s json_dump]
    by (auto simp: apply_event_def split: if_splits)
qed

lemma step_event:
  assumes "step json_dump s s'"
  shows "\<exists>ev. apply_event json_dump s ev = Some s'"
  using assms
proof (induction rule: step.induct)
  case (acquire i s task' request_headers mode)
  then have "apply_event json_dump s (Acquire i) = Some
       (s\<lparr>mgr := (mgr s)\<lparr>download_tasks := (download_tasks (mgr s))[i := task']\<rparr>,
          workers := (workers s)[i := Running request_headers mode],
          permits := permits s - 1\<rparr>)"
    by (simp add: apply_event_def)
  then show ?case by blast
next
  case (finish i s request_headers mode env m' d' reraised)
  then have "apply_event json_dump s (Finish i env) = Some
       (s\<lparr>mgr := m', files := d', workers := (workers s)[i := Done],
          permits := permits s + 1\<rparr>)"
    by (simp add: apply_event_def)
  then show ?case by blast
next
  case (cancel_waiting i s)
  then have "apply_event json_dump s (CancelWaiting i) = Some (s\<lparr>workers := (workers s)[i := Done]\<rparr>)"
    by (simp add: apply_event_def)
  then show ?case by blast
next
  case (next_round s)
  then have "apply_event json_dump s NextRound
      = Some (s\<lparr>workers := spawn retry_round (download_tasks (mgr s))\<rparr>)"
    by (simp add: apply_event_def)
  then show ?case by blast
qed

lemma exec_steps:
  "exec json_dump s events = Some s' \<Longrightarrow> (step json_dump)\<^sup>*\<^sup>* s s'"
proof (induction events arbitrary: s)
  case Nil
  then show ?case by simp
next
  case (Cons ev events)
  then obtain s1 where a: "apply_event json_dump s ev = Some s1"
    and r: "exec json_dump s1 events = Some s'"
    by (auto split: option.splits)
  have "step json_dump s s1" using a by (rule apply_event_step)
  moreover have "(step json_dump)\<^sup>*\<^sup>* s1 s'" using r by (rule Cons.IH)
  ultimately show ?case by (rule converse_rtranclp_into_rtranclp)
qed

lemma steps_exec:
  "(step json_dump)\<^sup>*\<^sup>* s s' \<Longrightarrow> \<exists>events. exec json_dump s events = Some s'"
proof (induction rule: converse_rtranclp_induct)
  case base
  have "exec json_dump s' [] = Some s'" by simp
  then show ?case by blast
next
  case (step y z)
  then obtain ev events where "apply_event json_dump y ev = Some z"
    and "exec json_dump z events = Some s'"
    using step_event by blast
  then have "exec json_dump y (ev # events) = Some s'" by simp
  then show ?case by blast
qed

lemma handlers_retry_count:
  assumes "handlers json_dump env i m res = (m', d', reraised)" and "i < length (download_tasks m)"
  shows "download_tasks m' = (download_tasks m)[i := download_tasks m' ! i] \<and>
         length (download_tasks m') = length (download_tasks m) \<and>
         max_retries (download_tasks m' ! i) = max_retries (task_after res) \<and>
         retry_count (download_tasks m' ! i) = retry_count (task_after res)
           + (case raised res of None \<Rightarrow> 0 | Some e \<Rightarrow> if e \<noteq> CancelledError then 1 else 0)"
  using assms
  by (auto simp: handlers_def except_Exception_def Let_def split: option.splits if_splits)

lemma apply_event_retry:
  assumes "apply_event json_dump s ev = Some s'" and "i < length (download_tasks (mgr s))"
  shows "retry_count (download_tasks (mgr s') ! i)
           = retry_count (download_tasks (mgr s) ! i) + (if attempt_fails s ev i then 1 else 0) \<and>
         max_retries (download_tasks (mgr s') ! i) = max_retries (download_tasks (mgr s) ! i) \<and>
         length (download_tasks (mgr s')) = length (download_tasks (mgr s))"
proof (cases ev)
  case (Acquire j)
  obtain task' request_headers mode where
    p: "prepare (files s) (download_tasks (mgr s) ! j) = (task', request_headers, mode)"
    by (metis prod_cases3)
  show ?thesis
    using assms Acquire p prepare_fields [OF p]
    by (auto simp: apply_event_def attempt_fails_def nth_list_update split: if_splits)
next
  case (Finish j env)
  show ?thesis
  proof (cases "workers s ! j")
    case (Running request_headers mode)
    obtain m' d' reraised where
      h: "handlers json_dump env j (mgr s)
            (transfer env (files s) (download_tasks (mgr s) ! j, request_headers, mode))
          = (m', d', reraised)"
      by (metis prod_cases3)
    have j: "j < length (download_tasks (mgr s))"
      using assms(1) Finish by (auto simp: apply_event_def split: if_splits)
    have s': "s' = s\<lparr>mgr := m', files := d', workers := (workers s)[j := Done],
                      permits := permits s + 1\<rparr>"
      using assms(1) Finish Running h by (auto simp: apply_event_def split: if_splits)
    note hr = handlers_retry_count [OF h j]
    note tf = transfer_fields [of env "files s" "download_tasks (mgr s) ! j" request_headers mode]
    show ?thesis
    proof (cases "j = i")
      case True
      show ?thesis
        using hr tf Finish Running True s'
        by (auto simp: attempt_fails_def split: option.splits)
    next
      case False
      have "download_tasks m' ! i = download_tasks (mgr s) ! i"
        using hr False by (metis nth_list_update_neq)
      moreover have "length (download_tasks m') = length (download_tasks (mgr s))"
        using hr by simp
      ultimately show ?thesis
        using Finish False s' by (simp add: attempt_fails_def)
    qed
  qed (use assms Finish in \<open>auto simp: apply_event_def split: if_splits\<close>)
next
  case (CancelWaiting j)
  show ?thesis
    using assms CancelWaiting by (auto simp: apply_event_def attempt_fails_def split: if_splits)
next
  case NextRound
  show ?thesis
    using assms NextRound by (auto simp: apply_event_def attempt_fails_def split: if_splits)
qed

lemma exec_retry:
  assumes "exec json_dump s events = Some s'" and "i < length (download_tasks (mgr s))"
  shows "retry_count (download_tasks (mgr s') ! i)
           = retry_count (download_tasks (mgr s) ! i) + int (failed_attempts json_dump s events i) \<and>
         max_retries (download_tasks (mgr s') ! i) = max_retries (download_tasks (mgr s) ! i) \<and>
         length (download_tasks (mgr s')) = length (download_tasks (mgr s))"
  using assms
proof (induction events arbitrary: s)
  case Nil
  then show ?case by simp
next
  case (Cons ev events)
  then obtain s1 where a: "apply_event json_dump s ev = Some s1"
    and r: "exec json_dump s1 events = Some s'"
    by (auto split: option.splits)
  note one = apply_event_retry [OF a Cons.prems(2)]
  have i1: "i < length (download_tasks (mgr s1))" using one Cons.prems(2) by simp
  note rest = Cons.IH [OF r i1]
  show ?case
    using one rest a by simp
qed

text \<open>
  Claim C4, as amended. When every task is within its budget as \<^verbatim>\<open>download_all\<close> starts
  (the retry count is at most \<^verbatim>\<open>max_retries\<close>, and below it unless the task has failed),
  then in every state of the run the retry count of a task is the count it started with
  plus the number of its failed attempts so far, and it is at most \<^verbatim>\<open>max_retries\<close>. A task
  whose count has reached \<^verbatim>\<open>max_retries\<close>, so a task that started at 0 and whose attempts
  failed exactly \<^verbatim>\<open>max_retries\<close> times, is failed and not pending, and a failed task is
  neither scheduled nor changed in the rest of the run.
\<close>

theorem retry_budget_respected:
  assumes "download_all_start m d = Some s0" and "exec json_dump s0 events = Some s"
    and "list_all within_budget (download_tasks m)" and "i < length (download_tasks m)"
  shows "retry_count (download_tasks (mgr s) ! i)
           = retry_count (download_tasks m ! i) + int (failed_attempts json_dump s0 events i) \<and>
         max_retries (download_tasks (mgr s) ! i) = max_retries (download_tasks m ! i) \<and>
         retry_count (download_tasks (mgr s) ! i) \<le> max_retries (download_tasks m ! i) \<and>
         (retry_count (download_tasks (mgr s) ! i) = max_retries (download_tasks m ! i) \<longrightarrow>
            status (download_tasks (mgr s) ! i) = Failed) \<and>
         (retry_count (download_tasks m ! i) = 0 \<and>
          int (failed_attempts json_dump s0 events i) = max_retries (download_tasks m ! i) \<longrightarrow>
            status (download_tasks (mgr s) ! i) = Failed) \<and>
         (status (download_tasks (mgr s) ! i) = Failed \<longrightarrow>
            (\<forall>later s'. exec json_dump s later = Some s' \<longrightarrow>
               download_tasks (mgr s') ! i = download_tasks (mgr s) ! i \<and>
               workers s' ! i \<noteq> Waiting \<and> \<not> is_running (workers s' ! i)))"
proof -
  have s0: "mgr s0 = m"
    using assms(1) by (auto simp: download_all_start_def split: if_splits)
  have run: "(step json_dump)\<^sup>*\<^sup>* s0 s"
    using assms(2) by (rule exec_steps)
  have inv: "budget_inv s"
    using budget_inv_run [OF run] budget_inv_start [OF assms(1,3)] by simp
  have cnt: "retry_count (download_tasks (mgr s) ! i)
           = retry_count (download_tasks m ! i) + int (failed_attempts json_dump s0 events i) \<and>
         max_retries (download_tasks (mgr s) ! i) = max_retries (download_tasks m ! i) \<and>
         length (download_tasks (mgr s)) = length (download_tasks m)"
    using exec_retry [OF assms(2), of i] assms(4) s0 by simp
  then have i: "i < length (download_tasks (mgr s))"
    using assms(4) by simp
  have wb: "within_budget (download_tasks (mgr s) ! i)"
    using inv i by (auto simp: budget_inv_def list_all2_conv_all_nth)
  have absorbing: "download_tasks (mgr s') ! i = download_tasks (mgr s) ! i \<and>
        workers s' ! i \<noteq> Waiting \<and> \<not> is_running (workers s' ! i)"
    if "status (download_tasks (mgr s) ! i) = Failed" and "exec json_dump s later = Some s'"
    for later s'
  proof -
    have "(step json_dump)\<^sup>*\<^sup>* s s'" using that(2) by (rule exec_steps)
    then have later: "download_tasks (mgr s') ! i = download_tasks (mgr s) ! i \<and>
         length (download_tasks (mgr s')) = length (download_tasks (mgr s)) \<and> budget_inv s'"
      using failed_untouched_run [of json_dump s s' i] inv i that(1) by simp
    then show ?thesis
      using failed_idle [of s' i] i that(1) by simp
  qed
  show ?thesis
    using cnt wb absorbing by (auto simp: within_budget_def)
qed

text \<open>
  Claim C3, as amended. In every state of a run of \<^verbatim>\<open>download_all\<close>, the number of
  coroutines inside \<^verbatim>\<open>download_with_progress\<close> is at most \<^verbatim>\<open>max_concurrent\<close>, and the
  number of downloading tasks is at most \<^verbatim>\<open>max_concurrent\<close> plus the number of tasks that
  were marked as downloading when the run started; so it is at most \<^verbatim>\<open>max_concurrent\<close>
  when no task starts as downloading.
\<close>

theorem downloading_within_limit:
  assumes "download_all_start m d = Some s0" and "(step json_dump)\<^sup>*\<^sup>* s0 s"
  shows "int (length (filter is_running (workers s))) \<le> max_concurrent m \<and>
         count_status Downloading (download_tasks (mgr s))
           \<le> max_concurrent m + count_status Downloading (download_tasks m) \<and>
         (list_all (\<lambda>task. status task \<noteq> Downloading) (download_tasks m) \<longrightarrow>
            count_status Downloading (download_tasks (mgr s)) \<le> max_concurrent m)"
proof -
  have c: "0 \<le> max_concurrent m"
    using assms(1) by (simp add: download_all_start_def split: if_splits)
  have inv: "limit_inv (download_tasks m) (nat (max_concurrent m)) s"
    using limit_inv_run [OF assms(2)] limit_inv_start [OF assms(1)] by simp
  then have run: "length (filter is_running (workers s)) \<le> nat (max_concurrent m)"
    by (auto simp: limit_inv_def)
  have "length (filter (\<lambda>task. status task = Downloading) (download_tasks (mgr s)))
          \<le> length (filter is_running (workers s))
            + length (filter (\<lambda>task. status task = Downloading) (download_tasks m))"
    using inv by (intro filter_length_three) (auto simp: limit_inv_def)
  then have bound: "count_status Downloading (download_tasks (mgr s))
           \<le> max_concurrent m + count_status Downloading (download_tasks m)"
    using run c unfolding count_status_def by linarith
  have "count_status Downloading (download_tasks m) = 0"
    if "list_all (\<lambda>task. status task \<noteq> Downloading) (download_tasks m)"
    using that by (simp add: count_status_def filter_empty_conv list_all_iff)
  then show ?thesis
    using run c bound by auto
qed

lemma limit_ex_start: "download_all_start manager_two_ex disk_ex = Some limit0_ex"
  by (simp add: download_all_start_def manager_two_ex_def manager_ex_def limit0_ex_def spawn_def
      first_round_def task_ex_def task_new_ex_def)

lemma limit_ex_acquire: "step json_dump_indent2 limit0_ex limit1_ex"
proof -
  have p: "prepare (files limit0_ex) (download_tasks (mgr limit0_ex) ! 0)
         = (task_ex\<lparr>status := Downloading\<rparr>, [(''Range'', ''bytes=3-'')], Append)"
    by (simp add: prepare_def limit0_ex_def manager_two_ex_def manager_ex_def disk_ex_def
        task_ex_def str_int_def digit_char_def)
  have "step json_dump_indent2 limit0_ex
     (limit0_ex\<lparr>mgr := (mgr limit0_ex)\<lparr>download_tasks :=
          (download_tasks (mgr limit0_ex))[0 := task_ex\<lparr>status := Downloading\<rparr>]\<rparr>,
        workers := (workers limit0_ex)[0 := Running [(''Range'', ''bytes=3-'')] Append],
        permits := permits limit0_ex - 1\<rparr>)"
    by (rule step.acquire [OF _ _ _ _ p])
       (simp_all add: limit0_ex_def manager_two_ex_def manager_ex_def)
  moreover have "limit0_ex\<lparr>mgr := (mgr limit0_ex)\<lparr>download_tasks :=
          (download_tasks (mgr limit0_ex))[0 := task_ex\<lparr>status := Downloading\<rparr>]\<rparr>,
        workers := (workers limit0_ex)[0 := Running [(''Range'', ''bytes=3-'')] Append],
        permits := permits limit0_ex - 1\<rparr> = limit1_ex"
    by (simp add: limit0_ex_def limit1_ex_def manager_two_ex_def manager_ex_def)
  ultimately show ?thesis by simp
qed

text \<open>Two tasks and the limit 1: one task downloads, no permit is left for the other.\<close>

theorem downloading_within_limit_witness:
  "download_all_start manager_two_ex disk_ex = Some limit0_ex \<and>
   step json_dump_indent2 limit0_ex limit1_ex \<and>
   count_status Downloading (download_tasks manager_two_ex) = 0 \<and>
   count_status Downloading (download_tasks (mgr limit1_ex)) = 1 \<and>
   count_status Downloading (download_tasks (mgr limit1_ex)) \<le> max_concurrent manager_two_ex \<and>
   int (length (filter is_running (workers limit1_ex))) \<le> max_concurrent manager_two_ex \<and>
   max_concurrent manager_two_ex = 1 \<and> permits limit1_ex = 0"
proof -
  have run: "(step json_dump_indent2)\<^sup>*\<^sup>* limit0_ex limit1_ex"
    using limit_ex_acquire by (rule r_into_rtranclp)
  have fresh: "list_all (\<lambda>task. status task \<noteq> Downloading) (download_tasks manager_two_ex)"
    by (simp add: manager_two_ex_def manager_ex_def task_ex_def task_new_ex_def)
  have none: "count_status Downloading (download_tasks manager_two_ex) = 0"
    by (simp add: count_status_def manager_two_ex_def manager_ex_def task_ex_def task_new_ex_def)
  have one: "count_status Downloading (download_tasks (mgr limit1_ex)) = 1"
    by (simp add: count_status_def limit1_ex_def manager_two_ex_def manager_ex_def task_ex_def
        task_new_ex_def)
  show ?thesis
    using downloading_within_limit [OF limit_ex_start run] fresh none limit_ex_start
      limit_ex_acquire one
    by (simp add: limit1_ex_def manager_two_ex_def manager_ex_def)
qed

text \<open>
  Claim C3 as stated fails when a task is marked as downloading before the run starts:
  line 182 does not select it and nothing resets it, and with the limit 1 the coroutine
  of the other task marks a second task as downloading.
\<close>

theorem stale_downloading_exceeds_limit:
  "download_all_start manager_stale_ex disk_ex = Some stale0_ex \<and>
   step json_dump_indent2 stale0_ex stale1_ex \<and>
   max_concurrent manager_stale_ex = 1 \<and>
   count_status Downloading (download_tasks (mgr stale1_ex)) = 2"
proof -
  have start: "download_all_start manager_stale_ex disk_ex = Some stale0_ex"
    by (simp add: download_all_start_def manager_stale_ex_def manager_ex_def stale0_ex_def
        spawn_def first_round_def task_ex_def task_new_ex_def)
  have p: "prepare (files stale0_ex) (download_tasks (mgr stale0_ex) ! 1)
         = (task_new_ex\<lparr>filename := ''out/ep2.mp4'', status := Downloading\<rparr>, [], Write)"
    by (simp add: prepare_def stale0_ex_def manager_stale_ex_def manager_ex_def disk_ex_def
        task_new_ex_def task_ex_def)
  have "step json_dump_indent2 stale0_ex
     (stale0_ex\<lparr>mgr := (mgr stale0_ex)\<lparr>download_tasks :=
          (download_tasks (mgr stale0_ex))
            [1 := task_new_ex\<lparr>filename := ''out/ep2.mp4'', status := Downloading\<rparr>]\<rparr>,
        workers := (workers stale0_ex)[1 := Running [] Write],
        permits := permits stale0_ex - 1\<rparr>)"
    by (rule step.acquire [OF _ _ _ _ p])
       (simp_all add: stale0_ex_def manager_stale_ex_def manager_ex_def)
  moreover have "stale0_ex\<lparr>mgr := (mgr stale0_ex)\<lparr>download_tasks :=
          (download_tasks (mgr stale0_ex))
            [1 := task_new_ex\<lparr>filename := ''out/ep2.mp4'', status := Downloading\<rparr>]\<rparr>,
        workers := (workers stale0_ex)[1 := Running [] Write],
        permits := permits stale0_ex - 1\<rparr> = stale1_ex"
    by (simp add: stale0_ex_def stale1_ex_def manager_stale_ex_def manager_ex_def)
  ultimately have acq: "step json_dump_indent2 stale0_ex stale1_ex" by simp
  have two: "count_status Downloading (download_tasks (mgr stale1_ex)) = 2"
    by (simp add: count_status_def stale1_ex_def manager_stale_ex_def manager_ex_def task_ex_def
        task_new_ex_def)
  show ?thesis
    using start acq two by (simp add: manager_stale_ex_def manager_ex_def)
qed

lemma fresh_ex_start: "download_all_start manager_fresh_ex disk_ex = Some fresh0_ex"
  by (simp add: download_all_start_def manager_fresh_ex_def manager_ex_def fresh0_ex_def spawn_def
      first_round_def task_new_ex_def task_ex_def)

lemmas run_ex_defs =
  apply_event_def attempt_fails_def prepare_def transfer_def handlers_def except_Exception_def
  spawn_def retry_round_def Let_def env_down_def server_down_def disk_ex_def
  fresh_failed_ex_def manager_ex_def task_new_ex_def task_ex_def



lemma fresh_ex_run_and_failures:
  "exec json_dump_indent2 fresh0_ex three_failures_ex = Some fresh_failed_ex \<and>
   failed_attempts json_dump_indent2 fresh0_ex three_failures_ex 0 = 3"
proof -
  define waiting where "waiting k =
     \<lparr>mgr = manager_ex\<lparr>download_tasks := [task_new_ex\<lparr>retry_count := k\<rparr>]\<rparr>,
      files = disk_ex, workers = [Waiting], permits = 3\<rparr>" for k
  define running where "running k =
     \<lparr>mgr = manager_ex\<lparr>download_tasks := [task_new_ex\<lparr>retry_count := k, status := Downloading\<rparr>]\<rparr>,
      files = disk_ex, workers = [Running [] Write], permits = 2\<rparr>" for k
  define finished where "finished k =
     \<lparr>mgr = manager_ex\<lparr>download_tasks := [task_new_ex\<lparr>retry_count := k\<rparr>]\<rparr>,
      files = disk_ex, workers = [Done], permits = 3\<rparr>" for k
  have start: "fresh0_ex = waiting 0"
    by (simp add: waiting_def fresh0_ex_def manager_fresh_ex_def manager_ex_def task_new_ex_def
        task_ex_def)
  have acq: "apply_event json_dump_indent2 (waiting k) (Acquire 0) = Some (running k)" for k
    by (simp add: waiting_def running_def run_ex_defs)
  have fin: "apply_event json_dump_indent2 (running k) (Finish 0 env_down) = Some (finished (k + 1))"
    if "k + 1 < 3" for k
    using that by (simp add: running_def finished_def run_ex_defs)
  have last: "apply_event json_dump_indent2 (running 2) (Finish 0 env_down) = Some fresh_failed_ex"
    by (simp add: running_def run_ex_defs)
  have nxt: "apply_event json_dump_indent2 (finished k) NextRound = Some (waiting k)"
    if "k < 3" for k
    using that by (simp add: waiting_def finished_def run_ex_defs)
  have fails: "attempt_fails (running k) (Finish 0 env_down) 0" for k
    by (simp add: running_def run_ex_defs)
  have quiet: "\<not> attempt_fails s (Acquire 0) 0" "\<not> attempt_fails s NextRound 0" for s
    by (simp_all add: attempt_fails_def)
  have f1: "finished (0 + 1) = finished 1" and f2: "finished (1 + 1) = finished 2"
    by simp_all
  show ?thesis
    unfolding three_failures_ex_def start
    using acq fin [of 0] fin [of 1] last nxt [of 1] nxt [of 2] fails quiet
    by (simp add: f1 f2)
qed

text \<open>
  The run of a new task with three retries whose three attempts fail: the count goes from
  0 to 3, the number of its failed attempts, and the task has failed.
\<close>

theorem retry_budget_respected_witness:
  "download_all_start manager_fresh_ex disk_ex = Some fresh0_ex \<and>
   exec json_dump_indent2 fresh0_ex three_failures_ex = Some fresh_failed_ex \<and>
   failed_attempts json_dump_indent2 fresh0_ex three_failures_ex 0 = 3 \<and>
   map (\<lambda>task. (retry_count task, max_retries task, status task)) (download_tasks manager_fresh_ex)
     = [(0, 3, Pending)] \<and>
   map (\<lambda>task. (retry_count task, max_retries task, status task))
     (download_tasks (mgr fresh_failed_ex)) = [(3, 3, Failed)] \<and>
   retry_count (download_tasks (mgr fresh_failed_ex) ! 0)
     = retry_count (download_tasks manager_fresh_ex ! 0)
       + int (failed_attempts json_dump_indent2 fresh0_ex three_failures_ex 0) \<and>
   status (download_tasks (mgr fresh_failed_ex) ! 0) = Failed"
proof -
  have run: "exec json_dump_indent2 fresh0_ex three_failures_ex = Some fresh_failed_ex"
    using fresh_ex_run_and_failures by (rule conjunct1)
  have fails: "failed_attempts json_dump_indent2 fresh0_ex three_failures_ex 0 = 3"
    using fresh_ex_run_and_failures by (rule conjunct2)
  have ok: "list_all within_budget (download_tasks manager_fresh_ex)"
    by (simp add: within_budget_def manager_fresh_ex_def manager_ex_def task_new_ex_def task_ex_def)
  have i: "0 < length (download_tasks manager_fresh_ex)"
    by (simp add: manager_fresh_ex_def manager_ex_def)
  have before: "map (\<lambda>task. (retry_count task, max_retries task, status task))
      (download_tasks manager_fresh_ex) = [(0, 3, Pending)]"
    by (simp add: manager_fresh_ex_def manager_ex_def task_new_ex_def task_ex_def)
  have after: "map (\<lambda>task. (retry_count task, max_retries task, status task))
      (download_tasks (mgr fresh_failed_ex)) = [(3, 3, Failed)]"
    by (simp add: fresh_failed_ex_def manager_ex_def task_new_ex_def task_ex_def)
  note all = retry_budget_respected [OF fresh_ex_start run ok i]
  have count: "retry_count (download_tasks (mgr fresh_failed_ex) ! 0)
     = retry_count (download_tasks manager_fresh_ex ! 0)
       + int (failed_attempts json_dump_indent2 fresh0_ex three_failures_ex 0)"
    using all by (rule conjunct1)
  have exhausted: "retry_count (download_tasks manager_fresh_ex ! 0) = 0 \<and>
      int (failed_attempts json_dump_indent2 fresh0_ex three_failures_ex 0)
        = max_retries (download_tasks manager_fresh_ex ! 0)"
    using fails by (simp add: manager_fresh_ex_def manager_ex_def task_new_ex_def task_ex_def)
  have failed: "status (download_tasks (mgr fresh_failed_ex) ! 0) = Failed"
    using all [THEN conjunct2, THEN conjunct2, THEN conjunct2, THEN conjunct2, THEN conjunct1]
      exhausted
    by (rule mp)
  show ?thesis
    using fresh_ex_start run fails before after count failed
    by (intro conjI)
qed

text \<open>
  Claim C4 as stated fails for a task that allows no retry: the first round selects it
  whatever its budget, and its one failed attempt leaves the retry count at 1, above
  \<^verbatim>\<open>max_retries\<close>, which is 0.
\<close>

theorem no_retry_task_exceeds_budget:
  "map first_round [task_no_retry_ex] = [True] \<and>
   map (\<lambda>task. (retry_count task, max_retries task, status task))
     (download_tasks (fst (download_with_progress json_dump_indent2 env_down 0
        (manager_ex\<lparr>download_tasks := [task_no_retry_ex]\<rparr>) disk_ex)))
     = [(1, 0, Failed)]"
  by (simp add: download_with_progress_def handlers_def except_Exception_def first_round_def
      try_block_def prepare_def transfer_def Let_def env_down_def server_down_def
      task_no_retry_ex_def task_new_ex_def task_ex_def manager_ex_def disk_ex_def)

end
